theory Spec2Isabelle
  imports Main "HOL-Library.AList" "HOL-Library.Multiset"
begin

section \<open>Go integers and panics\<close>

text \<open>
  Go's \<^verbatim>\<open>int\<close> is a 64-bit two's complement integer on the supported platforms:
  \<^verbatim>\<open>+\<close> and \<^verbatim>\<open>-\<close> wrap around, \<^verbatim>\<open>%\<close> is the truncated remainder (its sign is the
  sign of the dividend) and panics when the divisor is zero.  Values are kept as
  \<open>int\<close> and the wrap-around is written out with \<open>wrap64\<close>.
\<close>

definition wrap64 :: "int \<Rightarrow> int" where
  "wrap64 x = (x + 2 ^ 63) mod 2 ^ 64 - 2 ^ 63"

definition go_rem :: "int \<Rightarrow> int \<Rightarrow> int" where
  "go_rem a b = sgn a * (\<bar>a\<bar> mod \<bar>b\<bar>)"

datatype panic = DivideByZero | IndexOutOfRange | NilPointerDereference

text \<open>A Go \<^verbatim>\<open>error\<close> value, with its message.\<close>

datatype error = Error string

section \<open>Package history: the per-pool record log\<close>

type_synonym time = nat

text \<open>\<^verbatim>\<open>v1alpha1.Pull\<close>: one pull request of a job's refs.\<close>

record Pull =
  Number :: int
  Author :: string
  SHA :: string
  Title :: string
  Ref :: string
  Link :: string
  CommitLink :: string

text \<open>\<^verbatim>\<open>history.Record\<close>: one action taken for a pool.\<close>

record Record =
  Time :: time
  Action :: string
  BaseSHA :: string
  Target :: "Pull list"
  Err :: string

text \<open>
  \<^verbatim>\<open>recordLog\<close>: the ring buffer.  \<open>cachedSlice\<close> is \<open>None\<close> for Go's \<^verbatim>\<open>nil\<close>.
\<close>

record recordLog =
  buff :: "Record list"
  head :: int
  limit :: int
  cachedSlice :: "Record list option"

definition newRecordLog :: "int \<Rightarrow> recordLog" where
  "newRecordLog sizeLimit = \<lparr>buff = [], head = - 1, limit = sizeLimit, cachedSlice = None\<rparr>"

text \<open>
  \<^verbatim>\<open>recordLog.add\<close>.  The remainder panics on a zero limit; the overwrite
  \<^verbatim>\<open>rl.buff[rl.head] = rec\<close> panics when the index is outside the buffer.
\<close>

definition add :: "recordLog \<Rightarrow> Record \<Rightarrow> panic + recordLog" where
  "add rl rec =
     (let rl1 = rl\<lparr>cachedSlice := None\<rparr> in
      if limit rl1 = 0 then Inl DivideByZero
      else
        let rl2 = rl1\<lparr>head := go_rem (wrap64 (head rl1 + 1)) (limit rl1)\<rparr> in
        if int (length (buff rl2)) < limit rl2
        then Inr (rl2\<lparr>buff := buff rl2 @ [rec]\<rparr>)
        else if 0 \<le> head rl2 \<and> head rl2 < int (length (buff rl2))
        then Inr (rl2\<lparr>buff := (buff rl2)[nat (head rl2) := rec]\<rparr>)
        else Inl IndexOutOfRange)"

text \<open>
  The loop of \<^verbatim>\<open>recordLog.toSlice\<close>:
  \<^verbatim>\<open>for i := 0; i < len(rl.buff); i++ { index := (rl.limit + rl.head - i) % rl.limit; ... }\<close>
\<close>

function toSliceLoop :: "recordLog \<Rightarrow> nat \<Rightarrow> Record list \<Rightarrow> panic + Record list" where
  "toSliceLoop rl i res =
     (if i < length (buff rl)
      then
        if limit rl = 0 then Inl DivideByZero
        else
          let index = go_rem (wrap64 (wrap64 (limit rl + head rl) - int i)) (limit rl) in
          if 0 \<le> index \<and> index < int (length (buff rl))
          then toSliceLoop rl (Suc i) (res @ [buff rl ! nat index])
          else Inl IndexOutOfRange
      else Inr res)"
  by pat_completeness auto
termination
  by (relation "measure (\<lambda>(rl, i, res). length (buff rl) - i)") auto

declare toSliceLoop.simps [simp del]

definition toSlice :: "recordLog \<Rightarrow> panic + (Record list \<times> recordLog)" where
  "toSlice rl =
     (case cachedSlice rl of
        Some s \<Rightarrow> Inr (s, rl)
      | None \<Rightarrow>
          (case toSliceLoop rl 0 [] of
             Inl p \<Rightarrow> Inl p
           | Inr res \<Rightarrow> Inr (res, rl\<lparr>cachedSlice := Some res\<rparr>)))"

text \<open>
  \<^verbatim>\<open>sort.Sort(v1alpha1.ByNum(targets))\<close>: \<^verbatim>\<open>ByNum.Less\<close> compares the pull-request
  numbers only.  The standard library sorts a short slice (of at most 6 elements in
  every version of the library) with the insertion sort below
  (\<^verbatim>\<open>for j := i; j > a && data.Less(j, j-1); j-- { data.Swap(j, j-1) }\<close>); on longer
  slices it promises a sorted permutation and no more, so there the order of two
  targets with the same number may differ from the one below.  \<open>insertionStep\<close> takes
  the sorted prefix in reverse (the left neighbour first) and the element to place.
\<close>

fun insertionStep :: "Pull list \<Rightarrow> Pull \<Rightarrow> Pull list" where
  "insertionStep [] x = [x]"
| "insertionStep (p # ps) x =
     (if Number x < Number p then p # insertionStep ps x else x # p # ps)"

definition sortByNum :: "Pull list \<Rightarrow> Pull list" where
  "sortByNum targets = rev (foldl insertionStep [] targets)"

section \<open>Package history: the History of all pools\<close>

text \<open>
  \<^verbatim>\<open>History\<close>: the Go map \<^verbatim>\<open>logs\<close> from pool key to log is an association list with
  one entry per key (read with \<open>map_of\<close>, written with \<open>AList.update\<close>).  The mutex
  is not modelled: the calls are taken one after the other.
\<close>

record History =
  logs :: "(string \<times> recordLog) list"
  logSizeLimit :: int
  path :: string

definition readHistory :: "int \<Rightarrow> string \<Rightarrow> error + (string \<times> recordLog) list" where
  "readHistory maxRecordsPerKey pth = Inr []"

definition New :: "int \<Rightarrow> string \<Rightarrow> error + History" where
  "New maxRecordsPerKey pth =
     (let hist = \<lparr>logs = [], logSizeLimit = maxRecordsPerKey, path = pth\<rparr> in
      if pth \<noteq> []
      then (case readHistory maxRecordsPerKey (path hist) of
              Inl e \<Rightarrow> Inl e
            | Inr l \<Rightarrow> Inr (hist\<lparr>logs := l\<rparr>))
      else Inr hist)"

definition addRecord :: "History \<Rightarrow> string \<Rightarrow> Record \<Rightarrow> panic + History" where
  "addRecord h poolKey rec =
     (let h1 = (if map_of (logs h) poolKey = None
                then h\<lparr>logs := AList.update poolKey (newRecordLog (logSizeLimit h)) (logs h)\<rparr>
                else h) in
      case map_of (logs h1) poolKey of
        None \<Rightarrow> Inl NilPointerDereference
      | Some lg \<Rightarrow>
          (case add lg rec of
             Inl p \<Rightarrow> Inl p
           | Inr lg' \<Rightarrow> Inr (h1\<lparr>logs := AList.update poolKey lg' (logs h1)\<rparr>)))"

text \<open>
  \<^verbatim>\<open>History.Record\<close>; the clock \<^verbatim>\<open>now()\<close> is read first and is the argument \<open>t\<close>.
\<close>

definition History_Record ::
  "History \<Rightarrow> string \<Rightarrow> string \<Rightarrow> string \<Rightarrow> string \<Rightarrow> Pull list \<Rightarrow> time \<Rightarrow> panic + History" where
  "History_Record h poolKey action baseSHA err targets t =
     addRecord h poolKey
       \<lparr>Time = t, Action = action, BaseSHA = baseSHA, Target = sortByNum targets, Err = err\<rparr>"

text \<open>\<^verbatim>\<open>History.AllRecords\<close>: every log is read with \<open>toSlice\<close>, which fills its cache.\<close>

fun allRecordsLoop ::
  "(string \<times> recordLog) list \<Rightarrow> panic + ((string \<times> Record list) list \<times> (string \<times> recordLog) list)" where
  "allRecordsLoop [] = Inr ([], [])"
| "allRecordsLoop ((key, lg) # rest) =
     (case toSlice lg of
        Inl p \<Rightarrow> Inl p
      | Inr (s, lg') \<Rightarrow>
          (case allRecordsLoop rest of
             Inl p \<Rightarrow> Inl p
           | Inr (res, rest') \<Rightarrow> Inr ((key, s) # res, (key, lg') # rest')))"

definition AllRecords :: "History \<Rightarrow> panic + ((string \<times> Record list) list \<times> History)" where
  "AllRecords h =
     (case allRecordsLoop (logs h) of
        Inl p \<Rightarrow> Inl p
      | Inr (res, l') \<Rightarrow> Inr (res, h\<lparr>logs := l'\<rparr>))"

text \<open>A sequence of calls, for the statements about every sequence of calls.\<close>

fun adds :: "recordLog \<Rightarrow> Record list \<Rightarrow> panic + recordLog" where
  "adds rl [] = Inr rl"
| "adds rl (r # rs) = (case add rl r of Inl p \<Rightarrow> Inl p | Inr rl' \<Rightarrow> adds rl' rs)"

record RecordCall =
  call_poolKey :: string
  call_action :: string
  call_baseSHA :: string
  call_err :: string
  call_targets :: "Pull list"
  call_now :: time

definition recordOf :: "RecordCall \<Rightarrow> Record" where
  "recordOf c =
     \<lparr>Time = call_now c, Action = call_action c, BaseSHA = call_baseSHA c,
      Target = sortByNum (call_targets c), Err = call_err c\<rparr>"

fun Records :: "History \<Rightarrow> RecordCall list \<Rightarrow> panic + History" where
  "Records h [] = Inr h"
| "Records h (c # cs) =
     (case History_Record h (call_poolKey c) (call_action c) (call_baseSHA c) (call_err c)
             (call_targets c) (call_now c) of
        Inl p \<Rightarrow> Inl p
      | Inr h' \<Rightarrow> Records h' cs)"

text \<open>
  What a log holds, newest first, and the shape of a log that \<open>add\<close> has built:
  used to state and prove the properties of the ring.
\<close>

definition ring_contents :: "recordLog \<Rightarrow> Record list" where
  "ring_contents rl =
     map (\<lambda>i. buff rl ! nat ((limit rl + head rl - int i) mod limit rl)) [0..<length (buff rl)]"

definition ring_ok :: "recordLog \<Rightarrow> bool" where
  "ring_ok rl \<longleftrightarrow>
     1 \<le> limit rl \<and> limit rl < 2 ^ 63 \<and> int (length (buff rl)) \<le> limit rl \<and>
     (if int (length (buff rl)) < limit rl then head rl = int (length (buff rl)) - 1
      else 0 \<le> head rl \<and> head rl < limit rl) \<and>
     (case cachedSlice rl of None \<Rightarrow> True | Some s \<Rightarrow> s = ring_contents rl)"

text \<open>
  The records passed for one pool key, in the order of the calls, and the state of a
  History after a sequence of \<open>History.Record\<close> calls.
\<close>

definition keyRecords :: "RecordCall list \<Rightarrow> string \<Rightarrow> Record list" where
  "keyRecords calls key = map recordOf (filter (\<lambda>c. call_poolKey c = key) calls)"

definition hist_ok :: "int \<Rightarrow> History \<Rightarrow> RecordCall list \<Rightarrow> bool" where
  "hist_ok lim h calls \<longleftrightarrow>
     logSizeLimit h = lim \<and> distinct (map fst (logs h)) \<and>
     (\<forall>key. case map_of (logs h) key of
              None \<Rightarrow> keyRecords calls key = []
            | Some lg \<Rightarrow>
                keyRecords calls key \<noteq> [] \<and> ring_ok lg \<and> limit lg = lim \<and>
                ring_contents lg = take (nat lim) (rev (keyRecords calls key)))"

text \<open>
  A sequence of calls of \<open>History.Record\<close> and \<open>History.AllRecords\<close> in any order: the
  History it leaves and what each read returned, in order.
\<close>

datatype HistoryOp = RecordOp RecordCall | AllRecordsOp

fun runOps :: "History \<Rightarrow> HistoryOp list \<Rightarrow> panic + (History \<times> (string \<times> Record list) list list)" where
  "runOps h [] = Inr (h, [])"
| "runOps h (RecordOp c # ops) =
     (case History_Record h (call_poolKey c) (call_action c) (call_baseSHA c) (call_err c)
             (call_targets c) (call_now c) of
        Inl p \<Rightarrow> Inl p
      | Inr h' \<Rightarrow> runOps h' ops)"
| "runOps h (AllRecordsOp # ops) =
     (case AllRecords h of
        Inl p \<Rightarrow> Inl p
      | Inr (res, h') \<Rightarrow>
          (case runOps h' ops of
             Inl p \<Rightarrow> Inl p
           | Inr (h'', snaps) \<Rightarrow> Inr (h'', res # snaps)))"

text \<open>
  The \<open>Record\<close> calls of a sequence, the calls made before each of its reads, and the
  number of records that the ring of a key holds after given calls.
\<close>

fun callsOf :: "HistoryOp list \<Rightarrow> RecordCall list" where
  "callsOf [] = []"
| "callsOf (RecordOp c # ops) = c # callsOf ops"
| "callsOf (AllRecordsOp # ops) = callsOf ops"

fun readPoints :: "RecordCall list \<Rightarrow> HistoryOp list \<Rightarrow> RecordCall list list" where
  "readPoints sofar [] = []"
| "readPoints sofar (RecordOp c # ops) = readPoints (sofar @ [c]) ops"
| "readPoints sofar (AllRecordsOp # ops) = sofar # readPoints sofar ops"

definition held :: "int \<Rightarrow> RecordCall list \<Rightarrow> string \<Rightarrow> nat" where
  "held lim calls key = min (nat lim) (length (keyRecords calls key))"

text \<open>Fixtures for the closed examples: a call of \<open>History.Record\<close> without targets.\<close>

definition exampleCall :: "string \<Rightarrow> string \<Rightarrow> time \<Rightarrow> RecordCall" where
  "exampleCall key action t =
     \<lparr>call_poolKey = key, call_action = action, call_baseSHA = ''d0'', call_err = [],
      call_targets = [], call_now = t\<rparr>"

definition exampleRecord :: "string \<Rightarrow> time \<Rightarrow> Record" where
  "exampleRecord action t =
     \<lparr>Time = t, Action = action, BaseSHA = ''d0'', Target = [], Err = []\<rparr>"

section \<open>Package webhook\<close>

text \<open>
  \<^verbatim>\<open>scm.Repository\<close> and the webhooks of the SCM library.  \<^verbatim>\<open>scm.Webhook\<close> is an
  interface; \<open>ProcessWebHook\<close> tells the hooks apart by their dynamic type, so the
  model is a datatype with one constructor per type handled and \<open>OtherHook\<close>, carrying
  its kind, for every other one.  The payload of a hook is passed on to the handlers
  unread and is kept as one value.
\<close>

record Repository =
  ID :: string
  Namespace :: string
  Name :: string
  FullName :: string
  Branch :: string
  Clone :: string
  Link :: string

type_synonym payload = string

datatype Webhook =
    PingHook Repository
  | PushHook Repository payload
  | PullRequestHook Repository payload
  | BranchHook Repository payload
  | IssueCommentHook Repository payload
  | PullRequestCommentHook Repository payload
  | ReviewHook Repository payload
  | OtherHook string Repository payload

fun Webhook_Repository :: "Webhook \<Rightarrow> Repository" where
  "Webhook_Repository (PingHook r) = r"
| "Webhook_Repository (PushHook r p) = r"
| "Webhook_Repository (PullRequestHook r p) = r"
| "Webhook_Repository (BranchHook r p) = r"
| "Webhook_Repository (IssueCommentHook r p) = r"
| "Webhook_Repository (PullRequestCommentHook r p) = r"
| "Webhook_Repository (ReviewHook r p) = r"
| "Webhook_Repository (OtherHook k r p) = r"

text \<open>\<^verbatim>\<open>Webhook.Kind()\<close>, with the kind names of the SCM library.\<close>

fun Webhook_Kind :: "Webhook \<Rightarrow> string" where
  "Webhook_Kind (PingHook r) = ''ping''"
| "Webhook_Kind (PushHook r p) = ''push''"
| "Webhook_Kind (PullRequestHook r p) = ''pull_request''"
| "Webhook_Kind (BranchHook r p) = ''branch''"
| "Webhook_Kind (IssueCommentHook r p) = ''issue_comment''"
| "Webhook_Kind (PullRequestCommentHook r p) = ''pull_request_comment''"
| "Webhook_Kind (ReviewHook r p) = ''review''"
| "Webhook_Kind (OtherHook k r p) = k"

text \<open>
  The core configuration, as far as \<open>ProcessWebHook\<close> reads it: the names of the
  postsubmits and presubmits configured for a repository.  A \<^verbatim>\<open>config.Agent\<close> holds
  the configuration, \<open>None\<close> until one has been loaded; the plugin agent likewise.
\<close>

record Config =
  GetPostsubmits :: "Repository \<Rightarrow> string list"
  GetPresubmits :: "Repository \<Rightarrow> string list"

record ConfigAgent =
  agentConfig :: "Config option"

record ExternalPlugin =
  pluginName :: string
  pluginEndpoint :: string
  pluginEvents :: "string list"

record PluginConfiguration =
  ExternalPlugins :: "(string \<times> ExternalPlugin list) list"

record PluginAgent =
  configuration :: "PluginConfiguration option"

record Server =
  ConfigAgent :: "ConfigAgent option"
  Plugins :: PluginAgent

record Options =
  BindAddress :: string
  Path :: string
  Port :: int
  JSONLog :: bool
  namespace :: string
  botName :: string
  gitServerURL :: string
  server :: Server

text \<open>
  What the handlers read from outside the program: the environment variables, the
  build's version string, and the results of the calls into other packages
  (\<^verbatim>\<open>factory.NewClient\<close>, \<^verbatim>\<open>Webhooks.Parse\<close>, the token finder, \<^verbatim>\<open>clients.GetAPIClients\<close>,
  \<^verbatim>\<open>util.GetGitHubAppAPIUser\<close>, \<^verbatim>\<open>util.ExternalPluginsForEvent\<close>), each a function of the
  arguments the code passes.  \<open>lhClientNil\<close> says that \<^verbatim>\<open>GetAPIClients\<close> returned a nil
  Lighthouse client.
\<close>

record Request =
  Method :: string
  URLPath :: string
  Body :: "error + string"
  BodyClose :: "error option"

record Env =
  GIT_KIND :: string
  GIT_SERVER :: string
  GIT_TOKEN :: string
  GIT_USER :: string
  HMAC_TOKEN :: string
  GitHubAppSecretDir :: string
  GitHubAppGitRemoteUsername :: string
  GitHubAppAPIUser :: "error + string"
  Version :: string
  NewClient :: "string \<Rightarrow> string \<Rightarrow> string \<Rightarrow> error option"
  WebhooksParse :: "Request \<Rightarrow> string \<Rightarrow> error + Webhook option"
  FindToken :: "string \<Rightarrow> string \<Rightarrow> string \<Rightarrow> error + string"
  GetAPIClientsErr :: "error option"
  lhClientNil :: bool
  ExternalPluginsForEvent :: "PluginAgent \<Rightarrow> string \<Rightarrow> string \<Rightarrow> ExternalPlugin list"

text \<open>
  What a handler does to the outside: the calls of the server's event handlers (which
  run the internal plugins, and through them create jobs), the asynchronous delivery to
  external plugins, and the credentials it installs.  Log lines are left out.
\<close>

datatype hook_effect =
    SetCredentials string string
  | AddAuthToSCMClient string bool
  | SetClientAgent string
  | HandlePushEvent Webhook
  | HandlePullRequestEvent Webhook
  | HandleBranchEvent Webhook
  | HandleIssueCommentEvent Webhook
  | HandlePullRequestCommentEvent Webhook
  | HandleReviewEvent Webhook
  | CallExternalPluginsWithWebhook "ExternalPlugin list" Webhook string

fun isHandlerCall :: "hook_effect \<Rightarrow> bool" where
  "isHandlerCall (HandlePushEvent h) = True"
| "isHandlerCall (HandlePullRequestEvent h) = True"
| "isHandlerCall (HandleBranchEvent h) = True"
| "isHandlerCall (HandleIssueCommentEvent h) = True"
| "isHandlerCall (HandlePullRequestCommentEvent h) = True"
| "isHandlerCall (HandleReviewEvent h) = True"
| "isHandlerCall e = False"

fun isExternalPluginCall :: "hook_effect \<Rightarrow> bool" where
  "isExternalPluginCall (CallExternalPluginsWithWebhook ps h t) = True"
| "isExternalPluginCall e = False"

text \<open>
  \<^verbatim>\<open>http.ResponseWriter\<close>: the status is fixed by the first \<^verbatim>\<open>WriteHeader\<close>, or is 200 at
  the first \<^verbatim>\<open>Write\<close> (and for a handler that writes nothing); the body is what was
  written, in order.  \<^verbatim>\<open>http.Error\<close> writes the header and the message with a newline.
\<close>

record ResponseWriter =
  status :: "nat option"
  body :: string

definition newResponse :: ResponseWriter where
  "newResponse = \<lparr>status = None, body = []\<rparr>"

definition WriteHeader :: "nat \<Rightarrow> ResponseWriter \<Rightarrow> ResponseWriter" where
  "WriteHeader code w = (if status w = None then w\<lparr>status := Some code\<rparr> else w)"

definition Write :: "string \<Rightarrow> ResponseWriter \<Rightarrow> ResponseWriter" where
  "Write b w = (let w1 = WriteHeader 200 w in w1\<lparr>body := body w1 @ b\<rparr>)"

definition httpError :: "ResponseWriter \<Rightarrow> string \<Rightarrow> nat \<Rightarrow> ResponseWriter" where
  "httpError w msg code = Write (msg @ [CHR 0x0A]) (WriteHeader code w)"

definition responseStatus :: "ResponseWriter \<Rightarrow> nat" where
  "responseStatus w = (case status w of None \<Rightarrow> 200 | Some c \<Rightarrow> c)"

definition StatusNoContent :: nat where "StatusNoContent = 204"
definition StatusInternalServerError :: nat where "StatusInternalServerError = 500"
definition StatusServiceUnavailable :: nat where "StatusServiceUnavailable = 503"

definition responseHTTPError :: "ResponseWriter \<Rightarrow> nat \<Rightarrow> string \<Rightarrow> ResponseWriter" where
  "responseHTTPError w statusCode response = httpError w response statusCode"

fun errorMessage :: "error \<Rightarrow> string" where
  "errorMessage (Error m) = m"

text \<open>\<^verbatim>\<open>health\<close>, \<^verbatim>\<open>isReady\<close> and \<^verbatim>\<open>ready\<close>.\<close>

definition health :: "Options \<Rightarrow> ResponseWriter \<Rightarrow> Request \<Rightarrow> ResponseWriter" where
  "health opts w r = WriteHeader StatusNoContent w"

definition isReady :: "Options \<Rightarrow> bool" where
  "isReady opts = True"

definition ready :: "Options \<Rightarrow> ResponseWriter \<Rightarrow> Request \<Rightarrow> ResponseWriter" where
  "ready opts w r =
     (if isReady opts then WriteHeader StatusNoContent w
      else WriteHeader StatusServiceUnavailable w)"

text \<open>The readiness that the specification describes: both configurations loaded.\<close>

definition configsLoaded :: "Options \<Rightarrow> bool" where
  "configsLoaded opts \<longleftrightarrow>
     (case ConfigAgent (server opts) of None \<Rightarrow> False | Some a \<Rightarrow> agentConfig a \<noteq> None) \<and>
     configuration (Plugins (server opts)) \<noteq> None"

text \<open>The environment readers of \<^verbatim>\<open>Options\<close>.\<close>

definition hmacToken :: "Env \<Rightarrow> string" where
  "hmacToken env = HMAC_TOKEN env"

definition gitKind :: "Env \<Rightarrow> string" where
  "gitKind env = (let kind = GIT_KIND env in if kind = [] then ''github'' else kind)"

definition createSCMClient :: "Env \<Rightarrow> string \<times> error option" where
  "createSCMClient env =
     (let kind = gitKind env; serverURL = GIT_SERVER env
      in (serverURL, NewClient env kind serverURL []))"

definition GetBotName :: "Env \<Rightarrow> string" where
  "GetBotName env =
     (let fallback = (let b = GIT_USER env in if b = [] then ''jenkins-x-bot'' else b) in
      if GitHubAppSecretDir env \<noteq> []
      then (case GitHubAppAPIUser env of
              Inr ghaBotName \<Rightarrow> if ghaBotName \<noteq> [] then ghaBotName else fallback
            | Inl e \<Rightarrow> fallback)
      else fallback)"

definition createSCMToken :: "Env \<Rightarrow> string \<Rightarrow> error + string" where
  "createSCMToken env kind =
     (let envName = ''GIT_TOKEN''; value = GIT_TOKEN env in
      if value = []
      then Inl (Error (''No token available for git kind '' @ kind @
                       '' at environment variable $'' @ envName))
      else Inr value)"

text \<open>
  \<^verbatim>\<open>ProcessWebHook\<close>: the output, the error and the handler calls made.  The test for a
  ping comes first; the test of the repository against the configuration follows.
\<close>

definition repositoryNotConfigured :: "Env \<Rightarrow> Options \<Rightarrow> Repository \<Rightarrow> bool" where
  "repositoryNotConfigured env opts repository \<longleftrightarrow>
     GitHubAppSecretDir env \<noteq> [] \<and>
     (case ConfigAgent (server opts) of
        None \<Rightarrow> False
      | Some agent \<Rightarrow>
          (case agentConfig agent of
             None \<Rightarrow> False
           | Some cfg \<Rightarrow>
               length (GetPostsubmits cfg repository) = 0 \<and>
               length (GetPresubmits cfg repository) = 0))"

definition ProcessWebHook ::
  "Env \<Rightarrow> Options \<Rightarrow> Webhook \<Rightarrow> string \<times> error option \<times> hook_effect list" where
  "ProcessWebHook env opts webhook =
     (let repository = Webhook_Repository webhook in
      case webhook of
        PingHook r \<Rightarrow> (''pong from lighthouse '' @ Version env, None, [])
      | _ \<Rightarrow>
        if repositoryNotConfigured env opts repository
        then ([], Some (Error (''repository not configured: '' @ Link repository)), [])
        else
          (case webhook of
             PushHook r p \<Rightarrow> (''processed push hook'', None, [HandlePushEvent webhook])
           | PullRequestHook r p \<Rightarrow> (''processed PR hook'', None, [HandlePullRequestEvent webhook])
           | BranchHook r p \<Rightarrow> (''processed branch hook'', None, [HandleBranchEvent webhook])
           | IssueCommentHook r p \<Rightarrow>
               (''processed issue comment hook'', None, [HandleIssueCommentEvent webhook])
           | PullRequestCommentHook r p \<Rightarrow>
               (''processed PR comment hook'', None, [HandlePullRequestCommentEvent webhook])
           | ReviewHook r p \<Rightarrow> (''processed PR review hook'', None, [HandleReviewEvent webhook])
           | _ \<Rightarrow> (''unknown hook '' @ Webhook_Kind webhook, None, [])))"

text \<open>
  \<^verbatim>\<open>handleWebHookRequests\<close>, in two parts: \<open>processParsedWebhook\<close> is its second half,
  from \<^verbatim>\<open>clients.GetAPIClients\<close> on, once the webhook is parsed and the token is read.
  After an error of \<^verbatim>\<open>GetAPIClients\<close> or of \<open>ProcessWebHook\<close> the source writes the error
  response and goes on (there is no \<^verbatim>\<open>return\<close>); a nil Lighthouse client then panics
  at \<^verbatim>\<open>lhClient.LighthouseV1alpha1()\<close>.
\<close>

definition processParsedWebhook ::
  "Env \<Rightarrow> Options \<Rightarrow> ResponseWriter \<Rightarrow> Webhook \<Rightarrow> string \<Rightarrow> string \<Rightarrow>
   panic + (ResponseWriter \<times> hook_effect list)" where
  "processParsedWebhook env opts w webhook gitCloneUser token =
     (let ghaSecretDir = GitHubAppSecretDir env;
          w1 = (case GetAPIClientsErr env of
                  Some err \<Rightarrow> responseHTTPError w StatusInternalServerError
                                (''500 Internal Server Error: '' @ errorMessage err)
                | None \<Rightarrow> w);
          e1 = [SetCredentials gitCloneUser token,
                AddAuthToSCMClient token (ghaSecretDir \<noteq> [])]
      in
      if lhClientNil env then Inl NilPointerDereference
      else
        let e2 = e1 @ [SetClientAgent (GetBotName env)];
            (output, err, e3) = ProcessWebHook env opts webhook;
            w2 = (case err of
                    Some er \<Rightarrow> responseHTTPError w1 StatusInternalServerError
                                 (''500 Internal Server Error: '' @ errorMessage er)
                  | None \<Rightarrow> w1);
            external = ExternalPluginsForEvent env (Plugins (server opts)) (Webhook_Kind webhook)
                         (FullName (Webhook_Repository webhook));
            e4 = (if length external > 0
                  then [CallExternalPluginsWithWebhook external webhook (hmacToken env)]
                  else [])
        in Inr (Write output w2, e2 @ e3 @ e4))"

definition handleWebHookRequests ::
  "Env \<Rightarrow> Options \<Rightarrow> ResponseWriter \<Rightarrow> Request \<Rightarrow> panic + (ResponseWriter \<times> hook_effect list)" where
  "handleWebHookRequests env opts w r =
     (if Method r \<noteq> ''POST'' then Inr (w, [])
      else
        case Body r of
          Inl err \<Rightarrow>
            Inr (responseHTTPError w StatusInternalServerError
                   (''500 Internal Server Error: Read Body: '' @ errorMessage err), [])
        | Inr bodyBytes \<Rightarrow>
        (case BodyClose r of
          Some err \<Rightarrow>
            Inr (responseHTTPError w StatusInternalServerError
                   (''500 Internal Server Error: Read Close: '' @ errorMessage err), [])
        | None \<Rightarrow>
        (case createSCMClient env of
          (serverURL, Some err) \<Rightarrow>
            Inr (responseHTTPError w StatusInternalServerError
                   (''500 Internal Server Error: Failed to parse webhook: '' @ errorMessage err), [])
        | (serverURL, None) \<Rightarrow>
        (case WebhooksParse env r (hmacToken env) of
          Inl err \<Rightarrow>
            Inr (responseHTTPError w StatusInternalServerError
                   (''500 Internal Server Error: Failed to parse webhook: '' @ errorMessage err), [])
        | Inr None \<Rightarrow>
            Inr (responseHTTPError w StatusInternalServerError
                   ''500 Internal Server Error: No webhook could be parsed'', [])
        | Inr (Some webhook) \<Rightarrow>
            let ghaSecretDir = GitHubAppSecretDir env in
            if ghaSecretDir \<noteq> []
            then (case FindToken env serverURL ghaSecretDir
                         (Namespace (Webhook_Repository webhook)) of
                    Inl err \<Rightarrow>
                      Inr (responseHTTPError w StatusInternalServerError
                             (''500 Internal Server Error: failed to read owner token: '' @
                              errorMessage err), [])
                  | Inr token \<Rightarrow>
                      processParsedWebhook env opts w webhook (GitHubAppGitRemoteUsername env) token)
            else (case createSCMToken env (gitKind env) of
                    Inl err \<Rightarrow>
                      Inr (responseHTTPError w StatusInternalServerError
                             (''500 Internal Server Error: no scm token specified: '' @
                              errorMessage err), [])
                  | Inr token \<Rightarrow>
                      processParsedWebhook env opts w webhook (GetBotName env) token)))))"

text \<open>\<^verbatim>\<open>strings.Contains\<close>.\<close>

fun contains :: "string \<Rightarrow> string \<Rightarrow> bool" where
  "contains [] sub = (sub = [])"
| "contains (c # s) sub = (take (length sub) (c # s) = sub \<or> contains s sub)"

text \<open>Fixtures for the closed examples: a request, a repository, an environment.\<close>

definition postRequest :: Request where
  "postRequest = \<lparr>Method = ''POST'', URLPath = ''/hook'', Body = Inr ''{}'', BodyClose = None\<rparr>"

definition unknownRepo :: Repository where
  "unknownRepo =
     \<lparr>ID = ''42'', Namespace = ''org'', Name = ''unknown'', FullName = ''org/unknown'',
      Branch = ''master'', Clone = ''https://github.com/org/unknown.git'',
      Link = ''https://github.com/org/unknown''\<rparr>"

definition notifier :: ExternalPlugin where
  "notifier = \<lparr>pluginName = ''notifier'', pluginEndpoint = ''http://notifier'', pluginEvents = []\<rparr>"

definition appEnv :: "Webhook \<Rightarrow> ExternalPlugin list \<Rightarrow> Env" where
  "appEnv hook external =
     \<lparr>GIT_KIND = [], GIT_SERVER = ''https://github.com'', GIT_TOKEN = [], GIT_USER = [],
      HMAC_TOKEN = ''secret'', GitHubAppSecretDir = ''/secrets/gha'',
      GitHubAppGitRemoteUsername = ''x-access-token'', GitHubAppAPIUser = Inr ''lh-app'',
      Version = ''0.0.1'', NewClient = (\<lambda>kind url token. None),
      WebhooksParse = (\<lambda>r secret. Inr (Some hook)),
      FindToken = (\<lambda>url dir owner. Inr ''owner-token''),
      GetAPIClientsErr = None, lhClientNil = False,
      ExternalPluginsForEvent = (\<lambda>agent kind repo. external)\<rparr>"

definition emptyConfig :: Config where
  "emptyConfig = \<lparr>GetPostsubmits = (\<lambda>r. []), GetPresubmits = (\<lambda>r. [])\<rparr>"

definition appOptions :: "Config option \<Rightarrow> PluginConfiguration option \<Rightarrow> Options" where
  "appOptions cfg plugins =
     \<lparr>BindAddress = [], Path = ''/hook'', Port = 8080, JSONLog = True, namespace = ''jx'',
      botName = [], gitServerURL = ''https://github.com'',
      server = \<lparr>ConfigAgent = Some \<lparr>agentConfig = cfg\<rparr>,
                Plugins = \<lparr>configuration = plugins\<rparr>\<rparr>\<rparr>"


section \<open>Package v1alpha1: jobs\<close>

text \<open>
  Modelled from the spec: the constants of \<^verbatim>\<open>config.PipelineKind\<close> and of
  \<^verbatim>\<open>v1alpha1.PipelineState\<close> (their declarations are not among the sources), with the
  values the spec lists for a job's type and state.  Both are string types.
\<close>

type_synonym PipelineKind = string

definition PresubmitJob :: PipelineKind where "PresubmitJob = ''presubmit''"

type_synonym PipelineState = string

definition TriggeredState :: PipelineState where "TriggeredState = ''triggered''"
definition PendingState :: PipelineState where "PendingState = ''pending''"
definition RunningState :: PipelineState where "RunningState = ''running''"
definition SuccessState :: PipelineState where "SuccessState = ''success''"
definition FailureState :: PipelineState where "FailureState = ''failure''"
definition AbortedState :: PipelineState where "AbortedState = ''aborted''"
definition ErrorState :: PipelineState where "ErrorState = ''error''"

text \<open>
  \<^verbatim>\<open>v1alpha1.Refs\<close>, \<^verbatim>\<open>ActivityRecord\<close>, \<^verbatim>\<open>LighthouseJobSpec\<close>, \<^verbatim>\<open>LighthouseJobStatus\<close> and
  \<^verbatim>\<open>LighthouseJob\<close>, with the fields that the sources read and write.  A pointer that
  may be nil is an \<open>option\<close>; so is the map of labels.
\<close>

record Refs =
  Org :: string
  Repo :: string
  RepoLink :: string
  BaseRef :: string
  refs_BaseSHA :: string
  Pulls :: "Pull list"

record ActivityStageOrStep =
  stage_Name :: string
  stage_Status :: PipelineState

record ActivityRecord =
  act_Name :: string
  act_Owner :: string
  act_Repo :: string
  act_Branch :: string
  act_BuildIdentifier :: string
  act_Context :: string
  act_GitURL :: string
  act_LastCommitSHA :: string
  act_Status :: PipelineState
  act_StartTime :: "time option"
  act_CompletionTime :: "time option"
  act_Stages :: "ActivityStageOrStep list"

text \<open>
  Modelled from the spec: \<^verbatim>\<open>ActivityRecord.RunningStages\<close> (declared with the types, not
  among the sources); the spec has it return the names of the running stages.
\<close>

definition RunningStages :: "ActivityRecord \<Rightarrow> string list" where
  "RunningStages a = map stage_Name (filter (\<lambda>s. stage_Status s = RunningState) (act_Stages a))"

record LighthouseJobSpec =
  Type :: PipelineKind
  spec_Namespace :: string
  Job :: string
  Refs :: "Refs option"
  Context :: string
  RerunCommand :: string
  MaxConcurrency :: int

record LighthouseJobStatus =
  State :: PipelineState
  ActivityName :: string
  StartTime :: time
  CompletionTime :: "time option"
  LastCommitSHA :: string
  LastReportState :: string
  Description :: string
  ReportURL :: string
  Activity :: "ActivityRecord option"

record LighthouseJob =
  job_Name :: string
  job_Namespace :: string
  Labels :: "(string \<times> string) list option"
  Spec :: LighthouseJobSpec
  Status :: LighthouseJobStatus

section \<open>Package launcher\<close>

text \<open>\<^verbatim>\<open>strconv.Itoa\<close>, also the \<^verbatim>\<open>%v\<close> of an \<^verbatim>\<open>int\<close>: the decimal numeral.\<close>

function natToString :: "nat \<Rightarrow> string" where
  "natToString n =
     (if n < 10 then [''0123456789'' ! n]
      else natToString (n div 10) @ [''0123456789'' ! (n mod 10)])"
  by pat_completeness auto
termination
  by (relation "measure (\<lambda>n. n)") auto

declare natToString.simps [simp del]

definition Itoa :: "int \<Rightarrow> string" where
  "Itoa i = (if i < 0 then CHR ''-'' # natToString (nat (- i)) else natToString (nat i))"















text \<open>
  \<open>Launch\<close>, in two parts: \<open>launchPlan\<close> is its first half, up to the log line and the
  parameter for the pipeline engine; \<open>Launch\<close> goes on with the calls.  The result is a
  panic, or the returned pair (error or applied job) with the calls made, in order.
  \<open>branch\<close> and \<open>pullRefs\<close> go into the log line only.  The assignment into
  \<^verbatim>\<open>request.Labels\<close> panics on a nil map.
\<close>

definition errorsWrap :: "error \<Rightarrow> string \<Rightarrow> error" where
  "errorsWrap err msg = Error (msg @ '': '' @ errorMessage err)"











section \<open>Package foghorn: the status controller\<close>

text \<open>
  \<^verbatim>\<open>scm.State\<close> and \<^verbatim>\<open>scm.StatusInput\<close> of the SCM library.  The library's conversions
  between a state and its name (\<^verbatim>\<open>scm.ToState\<close>, \<^verbatim>\<open>State.String\<close>) are read from the
  environment below.
\<close>

datatype scm_State =
    StateUnknown | StatePending | StateRunning | StateSuccess | StateFailure
  | StateCanceled | StateError | StateExpected

record StatusInput =
  si_State :: scm_State
  si_Label :: string
  si_Desc :: string
  si_Target :: string

record ReportParams =
  rp_BaseURL :: string
  rp_Owner :: string
  rp_Repository :: string
  rp_Branch :: string
  rp_Build :: string
  rp_Context :: string
  rp_Team :: string

datatype lister_error = NotFound | ListerError string

text \<open>
  What the controller reads from outside, next to the environment \<open>Env\<close>: two more
  environment variables, the SCM library's conversions, the rendering of the target URL
  (\<^verbatim>\<open>createReportTargetURL\<close>, which runs the YAML and template libraries), the informer's
  lister, and the results of the calls that post a status, update the comments and
  update the job's status.
\<close>

record ControllerEnv =
  base :: Env
  LIGHTHOUSE_REPORT_URL_BASE :: string
  LIGHTHOUSE_REPORT_URL_TEAM :: string
  ToState :: "string \<Rightarrow> scm_State"
  StateString :: "scm_State \<Rightarrow> string"
  LighthousePayloadTypeActivity :: string
  createReportTargetURL :: "string \<Rightarrow> ReportParams \<Rightarrow> string"
  lhLister :: "string \<Rightarrow> string \<Rightarrow> lister_error + LighthouseJob option"
  CreateStatus :: "string \<Rightarrow> string \<Rightarrow> string \<Rightarrow> StatusInput \<Rightarrow> error option"
  reporterReport :: "LighthouseJob \<Rightarrow> error option"
  UpdateStatus :: "string \<Rightarrow> LighthouseJob \<Rightarrow> error option"

record Controller =
  jobConfig :: ConfigAgent
  pluginConfig :: PluginAgent
  controller_ns :: string

definition defaultTargetURLTemplate :: string where
  "defaultTargetURLTemplate =
     ''{{ .BaseURL }}/teams/{{ .Team }}/projects/{{ .Owner }}/{{ .Repository }}/{{ .Branch }}/{{ .Build }}''"

datatype report_effect =
    CallExternalPluginsWithActivityRecord "ExternalPlugin list" ActivityRecord string
  | CreateStatusCall string string string StatusInput
  | ReporterReportCall LighthouseJob

datatype sync_effect =
    Reported report_effect
  | UpdateStatusCall string LighthouseJob

text \<open>\<^verbatim>\<open>strings.Join\<close>, \<^verbatim>\<open>strings.HasPrefix\<close>, \<^verbatim>\<open>strings.TrimRight\<close> (of one character), \<^verbatim>\<open>strings.Split\<close> (at one character).\<close>

fun Join :: "string list \<Rightarrow> string \<Rightarrow> string" where
  "Join [] sep = []"
| "Join [x] sep = x"
| "Join (x # y # ys) sep = x @ sep @ Join (y # ys) sep"

definition HasPrefix :: "string \<Rightarrow> string \<Rightarrow> bool" where
  "HasPrefix s pre \<longleftrightarrow> take (length pre) s = pre"

definition TrimRight :: "string \<Rightarrow> char \<Rightarrow> string" where
  "TrimRight s c = rev (dropWhile (\<lambda>x. x = c) (rev s))"

fun Split :: "string \<Rightarrow> char \<Rightarrow> string list" where
  "Split [] sep = [[]]"
| "Split (c # s) sep =
     (if c = sep then [] # Split s sep
      else (case Split s sep of [] \<Rightarrow> [[c]] | p # ps \<Rightarrow> (c # p) # ps))"

text \<open>\<^verbatim>\<open>cache.SplitMetaNamespaceKey\<close> of the client library: \<open>name\<close> or \<open>namespace/name\<close>.\<close>

definition SplitMetaNamespaceKey :: "string \<Rightarrow> error + (string \<times> string)" where
  "SplitMetaNamespaceKey key =
     (case Split key (CHR ''/'') of
        [name] \<Rightarrow> Inr ([], name)
      | [nsp, name] \<Rightarrow> Inr (nsp, name)
      | _ \<Rightarrow> Inl (Error (''unexpected key format: '' @ key)))"

text \<open>The environment readers of the controller.\<close>

definition Controller_gitKind :: "ControllerEnv \<Rightarrow> string" where
  "Controller_gitKind env = (let kind = GIT_KIND (base env) in if kind = [] then ''github'' else kind)"

definition Controller_GetBotName :: "ControllerEnv \<Rightarrow> string" where
  "Controller_GetBotName env =
     (let b = GIT_USER (base env) in if b = [] then ''jenkins-x-bot'' else b)"

definition Controller_createSCMToken :: "ControllerEnv \<Rightarrow> string \<Rightarrow> error + string" where
  "Controller_createSCMToken env kind =
     (let envName = ''GIT_TOKEN''; value = GIT_TOKEN (base env) in
      if value = []
      then Inl (Error (''No token available for git kind '' @ kind @
                       '' at environment variable $'' @ envName))
      else Inr value)"

definition Controller_hmacToken :: "ControllerEnv \<Rightarrow> string" where
  "Controller_hmacToken env = HMAC_TOKEN (base env)"

definition getReportURLBase :: "ControllerEnv \<Rightarrow> string" where
  "getReportURLBase env = LIGHTHOUSE_REPORT_URL_BASE env"

definition getReportURLTeam :: "ControllerEnv \<Rightarrow> string" where
  "getReportURLTeam env = LIGHTHOUSE_REPORT_URL_TEAM env"

text \<open>\<^verbatim>\<open>Controller.createSCMClient\<close>: the error, if any (the client itself is not modelled).\<close>

definition Controller_createSCMClient :: "ControllerEnv \<Rightarrow> string \<Rightarrow> error option" where
  "Controller_createSCMClient env owner =
     (let kind = Controller_gitKind env;
          serverURL = GIT_SERVER (base env);
          ghaSecretDir = GitHubAppSecretDir (base env);
          tokenResult =
            (if ghaSecretDir \<noteq> []
             then (case FindToken (base env) serverURL ghaSecretDir owner of
                     Inl err \<Rightarrow> Inl (errorsWrap err (''failed to read owner token for owner '' @ owner))
                   | Inr token \<Rightarrow> Inr token)
             else Controller_createSCMToken env kind)
      in case tokenResult of
           Inl err \<Rightarrow> Some err
         | Inr token \<Rightarrow> NewClient (base env) kind serverURL token)"

text \<open>\<^verbatim>\<open>updateJobStatusForActivity\<close>.  The two completion times are pointers, compared as
  pointers; the assignment copies the pointer, and on the values it is the update below.\<close>

definition updateJobStatusForActivity :: "ActivityRecord \<Rightarrow> LighthouseJob \<Rightarrow> LighthouseJob" where
  "updateJobStatusForActivity activity job =
     (let job1 = (if act_Status activity \<noteq> State (Status job)
                  then job\<lparr>Status := (Status job)\<lparr>State := act_Status activity\<rparr>\<rparr> else job);
          job2 = (if act_LastCommitSHA activity \<noteq> LastCommitSHA (Status job1)
                  then job1\<lparr>Status := (Status job1)\<lparr>LastCommitSHA := act_LastCommitSHA activity\<rparr>\<rparr>
                  else job1);
          job3 = (if act_CompletionTime activity \<noteq> None
                  then job2\<lparr>Status := (Status job2)\<lparr>CompletionTime := act_CompletionTime activity\<rparr>\<rparr>
                  else job2)
      in job3)"

text \<open>\<^verbatim>\<open>toScmStatusDescriptionRunningStages\<close>.\<close>

record reportStatusInfo =
  scmStatus :: scm_State
  description :: string
  runningStages :: string

definition toScmStatusDescriptionRunningStages :: "ActivityRecord \<Rightarrow> string \<Rightarrow> reportStatusInfo" where
  "toScmStatusDescriptionRunningStages activity kind =
     (let info0 = \<lparr>scmStatus = StateUnknown, description = [], runningStages = []\<rparr>;
          info =
            (if act_Status activity = SuccessState
             then info0\<lparr>scmStatus := StateSuccess, description := ''Pipeline successful''\<rparr>
             else if act_Status activity = RunningState \<or> act_Status activity = PendingState
             then info0\<lparr>scmStatus := StateRunning, description := ''Pipeline running''\<rparr>
             else if act_Status activity = AbortedState
             then info0\<lparr>scmStatus := StateError, description := ''Error executing pipeline''\<rparr>
             else if act_Status activity = FailureState
             then info0\<lparr>scmStatus := StateFailure, description := ''Pipeline failed''\<rparr>
             else info0\<lparr>scmStatus := StateUnknown, description := ''Pipeline in unknown state''\<rparr>);
          stages = RunningStages activity
      in
      if length stages > 0 \<and> kind \<noteq> ''gitlab''
      then
        let info1 = info\<lparr>runningStages := Join stages '','',
                          description := ''Pipeline running stage(s): '' @ Join stages '', ''\<rparr>
        in if length (description info1) > 63
           then info1\<lparr>description := take 59 (description info1) @ ''...''\<rparr>
           else info1
      else info)"

text \<open>
  \<^verbatim>\<open>reportStatus\<close>: the job as it is left, the calls made, and the panic, if any
  (\<^verbatim>\<open>c.jobConfig.Config().Plank\<close> dereferences the configuration, nil until loaded).
  It is written in three parts: \<open>reportTarget\<close> is the target URL of the status (empty
  when none is set), \<open>postStatus\<close> is the tail from \<^verbatim>\<open>createSCMClient\<close> on, and
  \<open>reportStatus\<close> is the whole.
\<close>

definition lastReportTerminal :: "ControllerEnv \<Rightarrow> LighthouseJob \<Rightarrow> bool" where
  "lastReportTerminal env job \<longleftrightarrow>
     ToState env (LastReportState (Status job)) \<in> {StateFailure, StateError, StateSuccess, StateCanceled}"

definition reportTarget :: "ControllerEnv \<Rightarrow> string \<Rightarrow> ActivityRecord \<Rightarrow> string \<Rightarrow> string" where
  "reportTarget env nsp activity pipelineContext =
     (let urlBase = getReportURLBase env in
      if urlBase \<noteq> []
      then
        let urlTeam = getReportURLTeam env;
            team = (if urlTeam \<noteq> [] then urlTeam else nsp);
            targetURL = createReportTargetURL env defaultTargetURLTemplate
              \<lparr>rp_BaseURL = TrimRight urlBase (CHR ''/''), rp_Owner = act_Owner activity,
               rp_Repository = act_Repo activity, rp_Branch = act_Branch activity,
               rp_Build = act_BuildIdentifier activity, rp_Context = pipelineContext,
               rp_Team = team\<rparr>
        in if HasPrefix targetURL ''http://'' \<or> HasPrefix targetURL ''https://''
           then targetURL else []
      else [])"

definition postStatus ::
  "ControllerEnv \<Rightarrow> Controller \<Rightarrow> ActivityRecord \<Rightarrow> LighthouseJob \<Rightarrow> reportStatusInfo \<Rightarrow>
   StatusInput \<Rightarrow> report_effect list \<Rightarrow> LighthouseJob \<times> report_effect list \<times> panic option" where
  "postStatus env c activity job statusInfo gitRepoStatus e1 =
     (let sha = act_LastCommitSHA activity;
          owner = act_Owner activity;
          repo = act_Repo activity
      in
      case Controller_createSCMClient env owner of
        Some err \<Rightarrow> (job, e1, None)
      | None \<Rightarrow>
          let e2 = e1 @ [CreateStatusCall owner repo sha gitRepoStatus] in
          (case CreateStatus env owner repo sha gitRepoStatus of
             Some err \<Rightarrow> (job, e2, None)
           | None \<Rightarrow>
               (case agentConfig (jobConfig c) of
                  None \<Rightarrow> (job, e2, Some NilPointerDereference)
                | Some cfg \<Rightarrow>
                    let e3 = e2 @ [ReporterReportCall job];
                        job1 = (if si_Target gitRepoStatus \<noteq> []
                                then job\<lparr>Status := (Status job)\<lparr>ReportURL := si_Target gitRepoStatus\<rparr>\<rparr>
                                else job);
                        job2 = job1\<lparr>Status := (Status job1)
                                 \<lparr>Description := description statusInfo,
                                  LastReportState := StateString env (scmStatus statusInfo)\<rparr>\<rparr>
                    in (job2, e3, None))))"

definition reportStatus ::
  "ControllerEnv \<Rightarrow> Controller \<Rightarrow> string \<Rightarrow> ActivityRecord \<Rightarrow> LighthouseJob \<Rightarrow>
   LighthouseJob \<times> report_effect list \<times> panic option" where
  "reportStatus env c nsp activity job =
     (let sha = act_LastCommitSHA activity;
          owner = act_Owner activity;
          repo = act_Repo activity;
          gitURL = act_GitURL activity;
          statusInfo = toScmStatusDescriptionRunningStages activity (Controller_gitKind env)
      in
      if gitURL = [] then (job, [], None)
      else if sha = [] then (job, [], None)
      else if owner = [] then (job, [], None)
      else if repo = [] then (job, [], None)
      else if scmStatus statusInfo = StateUnknown then (job, [], None)
      else if lastReportTerminal env job then (job, [], None)
      else if ToState env (LastReportState (Status job)) = scmStatus statusInfo \<and>
              Description (Status job) = description statusInfo
      then (job, [], None)
      else
        let external = ExternalPluginsForEvent (base env) (pluginConfig c)
                         (LighthousePayloadTypeActivity env) (owner @ ''/'' @ repo);
            e1 = (if length external > 0
                  then [CallExternalPluginsWithActivityRecord external activity
                          (Controller_hmacToken env)]
                  else []);
            pipelineContext = (if act_Context activity = [] then ''jenkins-x''
                               else act_Context activity);
            gitRepoStatus = \<lparr>si_State = scmStatus statusInfo, si_Label = pipelineContext,
                             si_Desc = description statusInfo,
                             si_Target = reportTarget env nsp activity pipelineContext\<rparr>
        in postStatus env c activity job statusInfo gitRepoStatus e1)"

text \<open>
  \<^verbatim>\<open>syncHandler\<close>: the returned error (or the panic) and the calls made.  The job read
  from the lister is copied, updated for its activity and reported; the status of the
  copy, when it differs from the one in the lister, is written with \<^verbatim>\<open>UpdateStatus\<close>.
\<close>

definition syncHandler ::
  "ControllerEnv \<Rightarrow> Controller \<Rightarrow> string \<Rightarrow> (panic + error option) \<times> sync_effect list" where
  "syncHandler env c key =
     (case SplitMetaNamespaceKey key of
        Inl err \<Rightarrow> (Inr None, [])
      | Inr (nsp, name) \<Rightarrow>
      (case lhLister env nsp name of
        Inl NotFound \<Rightarrow> (Inr None, [])
      | Inl (ListerError m) \<Rightarrow> (Inr (Some (Error m)), [])
      | Inr None \<Rightarrow> (Inr None, [])
      | Inr (Some job) \<Rightarrow>
      (case Activity (Status job) of
        None \<Rightarrow> (Inr None, [])
      | Some activityRecord \<Rightarrow>
          let jobCopy0 = updateJobStatusForActivity activityRecord job;
              (jobCopy, es, pnc) = reportStatus env c nsp activityRecord jobCopy0;
              e1 = map Reported es
          in
          case pnc of
            Some p \<Rightarrow> (Inl p, e1)
          | None \<Rightarrow>
          (case lhLister env nsp (job_Name jobCopy) of
            Inl NotFound \<Rightarrow> (Inr (Some (Error ''not found'')), e1)
          | Inl (ListerError m) \<Rightarrow> (Inr (Some (Error m)), e1)
          | Inr None \<Rightarrow> (Inl NilPointerDereference, e1)
          | Inr (Some currentJob) \<Rightarrow>
              if Status currentJob \<noteq> Status jobCopy
              then
                let currentJob1 = currentJob\<lparr>Status := Status jobCopy\<rparr>;
                    e2 = e1 @ [UpdateStatusCall nsp currentJob1]
                in (case UpdateStatus env nsp currentJob1 of
                      Some err \<Rightarrow> (Inr (Some err), e2)
                    | None \<Rightarrow> (Inr None, e2))
              else (Inr None, e1)))))"

text \<open>The terminal states of a job, as the specification's invariant names them.\<close>

definition terminalState :: "PipelineState \<Rightarrow> bool" where
  "terminalState s \<longleftrightarrow> s \<in> {SuccessState, FailureState, AbortedState, ErrorState}"

text \<open>
  A run of \<open>reportStatus\<close> on one job, one activity after the other, until a panic: the
  jobs after each call, and all calls made.
\<close>

fun reportRun ::
  "ControllerEnv \<Rightarrow> Controller \<Rightarrow> string \<Rightarrow> LighthouseJob \<Rightarrow> ActivityRecord list \<Rightarrow>
   LighthouseJob list \<times> report_effect list" where
  "reportRun env c nsp job [] = ([], [])"
| "reportRun env c nsp job (a # as) =
     (case reportStatus env c nsp a job of
        (job', es, Some p) \<Rightarrow> ([job'], es)
      | (job', es, None) \<Rightarrow>
          (case reportRun env c nsp job' as of (jobs, es') \<Rightarrow> (job' # jobs, es @ es')))"

text \<open>How often a run writes a terminal state into \<open>LastReportState\<close>.\<close>

fun terminalReports :: "ControllerEnv \<Rightarrow> LighthouseJob \<Rightarrow> LighthouseJob list \<Rightarrow> nat" where
  "terminalReports env job [] = 0"
| "terminalReports env job (job' # jobs) =
     (if LastReportState (Status job') \<noteq> LastReportState (Status job) \<and> lastReportTerminal env job'
      then 1 else 0) + terminalReports env job' jobs"


text \<open>
  Fixtures for the closed examples: conversions between a state and its name, an
  environment with a bot token, an activity and a job holding it.
\<close>

definition exampleToState :: "string \<Rightarrow> scm_State" where
  "exampleToState s =
     (if s = ''pending'' then StatePending
      else if s = ''running'' then StateRunning
      else if s = ''success'' then StateSuccess
      else if s = ''failure'' then StateFailure
      else if s = ''cancelled'' then StateCanceled
      else if s = ''error'' then StateError
      else if s = ''expected'' then StateExpected
      else StateUnknown)"

fun exampleStateString :: "scm_State \<Rightarrow> string" where
  "exampleStateString StateUnknown = ''unknown''"
| "exampleStateString StatePending = ''pending''"
| "exampleStateString StateRunning = ''running''"
| "exampleStateString StateSuccess = ''success''"
| "exampleStateString StateFailure = ''failure''"
| "exampleStateString StateCanceled = ''cancelled''"
| "exampleStateString StateError = ''error''"
| "exampleStateString StateExpected = ''expected''"

definition tokenEnv :: Env where
  "tokenEnv =
     \<lparr>GIT_KIND = [], GIT_SERVER = ''https://github.com'', GIT_TOKEN = ''bot-token'',
      GIT_USER = [], HMAC_TOKEN = ''secret'', GitHubAppSecretDir = [],
      GitHubAppGitRemoteUsername = ''x-access-token'', GitHubAppAPIUser = Inr [],
      Version = ''0.0.1'', NewClient = (\<lambda>kind url token. None),
      WebhooksParse = (\<lambda>r secret. Inr None),
      FindToken = (\<lambda>url dir owner. Inr ''owner-token''),
      GetAPIClientsErr = None, lhClientNil = False,
      ExternalPluginsForEvent = (\<lambda>agent kind repo. [])\<rparr>"

definition controllerEnv :: "(string \<Rightarrow> string \<Rightarrow> lister_error + LighthouseJob option) \<Rightarrow> ControllerEnv" where
  "controllerEnv lister =
     \<lparr>base = tokenEnv, LIGHTHOUSE_REPORT_URL_BASE = [], LIGHTHOUSE_REPORT_URL_TEAM = [],
      ToState = exampleToState, StateString = exampleStateString,
      LighthousePayloadTypeActivity = ''activity'',
      createReportTargetURL = (\<lambda>template params. []),
      lhLister = lister,
      CreateStatus = (\<lambda>owner repo sha input. None),
      reporterReport = (\<lambda>job. None),
      UpdateStatus = (\<lambda>nsp job. None)\<rparr>"

definition controller :: Controller where
  "controller =
     \<lparr>jobConfig = \<lparr>agentConfig = Some emptyConfig\<rparr>, pluginConfig = \<lparr>configuration = None\<rparr>,
      controller_ns = ''jx''\<rparr>"

definition activityWith :: "PipelineState \<Rightarrow> string list \<Rightarrow> ActivityRecord" where
  "activityWith st running =
     \<lparr>act_Name = ''org-repo-pr-7-1'', act_Owner = ''org'', act_Repo = ''repo'',
      act_Branch = ''PR-7'', act_BuildIdentifier = ''1'', act_Context = ''unit'',
      act_GitURL = ''https://github.com/org/repo.git'', act_LastCommitSHA = ''abc'',
      act_Status = st, act_StartTime = Some 100, act_CompletionTime = None,
      act_Stages = map (\<lambda>n. \<lparr>stage_Name = n, stage_Status = RunningState\<rparr>) running\<rparr>"

definition jobWith :: "PipelineState \<Rightarrow> string \<Rightarrow> ActivityRecord option \<Rightarrow> LighthouseJob" where
  "jobWith st lastReport activity =
     \<lparr>job_Name = ''job-1'', job_Namespace = ''jx'', Labels = Some [],
      Spec = \<lparr>Type = PresubmitJob, spec_Namespace = ''jx'', Job = ''unit'',
              Refs = None, Context = ''unit'', RerunCommand = [], MaxConcurrency = 0\<rparr>,
      Status = \<lparr>State = st, ActivityName = ''org-repo-pr-7-1'', StartTime = 100,
                CompletionTime = None, LastCommitSHA = ''abc'', LastReportState = lastReport,
                Description = [], ReportURL = [], Activity = activity\<rparr>\<rparr>"

definition oneJobLister :: "LighthouseJob \<Rightarrow> string \<Rightarrow> string \<Rightarrow> lister_error + LighthouseJob option" where
  "oneJobLister job nsp name =
     (if nsp = job_Namespace job \<and> name = job_Name job then Inr (Some job) else Inl NotFound)"


section \<open>Properties of the record log\<close>

lemma wrap64_id: "- (2 ^ 63) \<le> x \<Longrightarrow> x < 2 ^ 63 \<Longrightarrow> wrap64 x = x"
  unfolding wrap64_def by (simp add: mod_pos_pos_trivial)

lemma go_rem_nonneg: "0 \<le> a \<Longrightarrow> 0 < b \<Longrightarrow> go_rem a b = a mod b"
  unfolding go_rem_def by (cases "a = 0") (simp_all add: sgn_if)

lemma ring_ok_new: "1 \<le> lim \<Longrightarrow> lim < 2 ^ 63 \<Longrightarrow> ring_ok (newRecordLog lim)"
  by (simp add: ring_ok_def newRecordLog_def)

lemma add_head: 
  assumes "ring_ok rl"
  shows "go_rem (wrap64 (head rl + 1)) (limit rl) = (head rl + 1) mod limit rl"
proof -
  from assms have b: "- 1 \<le> head rl" "head rl < limit rl" "limit rl < 2 ^ 63" "1 \<le> limit rl"
    by (auto simp: ring_ok_def split: if_splits)
  then have "wrap64 (head rl + 1) = head rl + 1" by (intro wrap64_id) auto
  with b show ?thesis by (simp add: go_rem_nonneg)
qed

lemma ring_shift:
  fixes L h :: int
  shows "(L + (h + 1) mod L - int (Suc j)) mod L = (L + h - int j) mod L"
proof -
  have "L + (h + 1) mod L - int (Suc j) = L + ((h + 1) mod L - int (Suc j))" by simp
  then have "(L + (h + 1) mod L - int (Suc j)) mod L = ((h + 1) mod L - int (Suc j)) mod L"
    by (simp only: mod_add_self1)
  also have "\<dots> = ((h + 1) - int (Suc j)) mod L"
    by (simp only: mod_diff_left_eq)
  also have "(h + 1) - int (Suc j) = h - int j" by simp
  also have "(h - int j) mod L = (L + (h - int j)) mod L"
    by (simp only: mod_add_self1)
  also have "L + (h - int j) = L + h - int j" by simp
  finally show ?thesis .
qed

lemma ring_small:
  fixes L a b :: int
  assumes "0 \<le> a - b" "a - b < L"
  shows "(L + a - b) mod L = a - b"
proof -
  have "L + a - b = L + (a - b)" by simp
  then have "(L + a - b) mod L = (a - b) mod L" by (simp only: mod_add_self1)
  then show ?thesis using assms by (simp only: mod_pos_pos_trivial)
qed

lemma ring_other:
  fixes L h' k :: int
  assumes "1 \<le> k" "k < L" "0 \<le> h'" "h' < L"
  shows "(L + h' - k) mod L \<noteq> h'"
proof
  assume "(L + h' - k) mod L = h'"
  then have "(L + h' - k) mod L = h' mod L" using assms by simp
  then have "L dvd (L + h' - k) - h'" by (simp only: mod_eq_dvd_iff)
  moreover have "(L + h' - k) - h' = L - k" by simp
  ultimately have "L dvd L - k" by simp
  moreover have "0 < L - k" "L - k < L" using assms by simp_all
  ultimately show False by (auto dest: zdvd_imp_le)
qed

lemma add_ok_notfull:
  assumes ok: "ring_ok rl" and nf: "int (length (buff rl)) < limit rl"
  shows "add rl r = Inr \<lparr>buff = buff rl @ [r], head = int (length (buff rl)), limit = limit rl, cachedSlice = None\<rparr>"
proof -
  from ok nf have h: "head rl = int (length (buff rl)) - 1" and L: "1 \<le> limit rl"
    by (auto simp: ring_ok_def)
  have "go_rem (wrap64 (head rl + 1)) (limit rl) = int (length (buff rl))"
    using add_head[OF ok] h nf by simp
  with nf L show ?thesis by (simp add: add_def Let_def)
qed

lemma add_ok_full:
  assumes ok: "ring_ok rl" and f: "int (length (buff rl)) = limit rl"
  shows "add rl r = Inr \<lparr>buff = (buff rl)[nat ((head rl + 1) mod limit rl) := r],
           head = (head rl + 1) mod limit rl, limit = limit rl, cachedSlice = None\<rparr>"
proof -
  from ok have L: "1 \<le> limit rl" by (auto simp: ring_ok_def)
  then have "0 \<le> (head rl + 1) mod limit rl" "(head rl + 1) mod limit rl < limit rl" by auto
  with L f show ?thesis by (simp add: add_def Let_def add_head[OF ok])
qed

lemma add_ok:
  assumes ok: "ring_ok rl"
  shows "\<exists>rl'. add rl r = Inr rl' \<and> ring_ok rl' \<and> limit rl' = limit rl \<and>
           ring_contents rl' = take (nat (limit rl)) (r # ring_contents rl)"
proof (cases "int (length (buff rl)) < limit rl")
  case True
  let ?n = "length (buff rl)"
  let ?rl' = "\<lparr>buff = buff rl @ [r], head = int ?n, limit = limit rl, cachedSlice = None\<rparr>"
  from ok True have h: "head rl = int ?n - 1" and L: "1 \<le> limit rl" "limit rl < 2 ^ 63"
    by (auto simp: ring_ok_def)
  have a: "add rl r = Inr ?rl'" by (rule add_ok_notfull[OF ok True])
  have o: "ring_ok ?rl'" using True L by (auto simp: ring_ok_def)
  have len: "length (ring_contents rl) = ?n" by (simp add: ring_contents_def)
  have c: "ring_contents ?rl' = r # ring_contents rl"
  proof (rule nth_equalityI)
    show "length (ring_contents ?rl') = length (r # ring_contents rl)"
      by (simp add: ring_contents_def)
  next
    fix i assume "i < length (ring_contents ?rl')"
    then have i: "i < Suc ?n" by (simp add: ring_contents_def)
    show "ring_contents ?rl' ! i = (r # ring_contents rl) ! i"
    proof (cases i)
      case 0
      have "(limit rl + int ?n) mod limit rl = int ?n" using True by simp
      then show ?thesis using 0 i unfolding ring_contents_def
        by (simp add: nth_append del: upt_Suc)
    next
      case (Suc j)
      with i have j: "j < ?n" by simp
      have e: "(limit rl + int ?n - int (Suc j)) mod limit rl = int ?n - int (Suc j)"
        using True j by (intro ring_small) simp_all
      have e2: "(limit rl + head rl - int j) mod limit rl = head rl - int j"
        using True j h by (intro ring_small) simp_all
      have "nat (int ?n - int (Suc j)) = ?n - Suc j" by arith
      then have x: "nat ((limit rl + int ?n - int (Suc j)) mod limit rl) = ?n - Suc j"
        by (simp only: e)
      have "nat (head rl - int j) = ?n - Suc j" using h by arith
      then have y: "nat ((limit rl + head rl - int j) mod limit rl) = ?n - Suc j"
        by (simp only: e2)
      have lt: "?n - Suc j < ?n" using j by simp
      have "ring_contents ?rl' ! i = (buff rl @ [r]) ! (?n - Suc j)"
      proof -
        have "ring_contents ?rl' ! i =
                (buff rl @ [r]) ! nat ((limit rl + int ?n - int i) mod limit rl)"
          using i unfolding ring_contents_def by (simp del: upt_Suc)
        then show ?thesis using x Suc by (simp only:)
      qed
      also have "\<dots> = buff rl ! (?n - Suc j)" using lt by (simp add: nth_append)
      also have "\<dots> = ring_contents rl ! j"
      proof -
        have "ring_contents rl ! j = buff rl ! nat ((limit rl + head rl - int j) mod limit rl)"
          using j unfolding ring_contents_def by simp
        then show ?thesis using y by (simp only:)
      qed
      finally show ?thesis using Suc by simp
    qed
  qed
  have "take (nat (limit rl)) (r # ring_contents rl) = r # ring_contents rl"
    using True len by simp
  with a o c show ?thesis by auto
next
  case False
  let ?n = "length (buff rl)"
  let ?L = "limit rl"
  let ?h' = "(head rl + 1) mod ?L"
  let ?rl' = "\<lparr>buff = (buff rl)[nat ?h' := r], head = ?h', limit = ?L, cachedSlice = None\<rparr>"
  from ok False have f: "int ?n = ?L" and L: "1 \<le> ?L" "?L < 2 ^ 63"
    and h: "0 \<le> head rl" "head rl < ?L"
    by (auto simp: ring_ok_def)
  have h': "0 \<le> ?h'" "?h' < ?L" using L by auto
  have a: "add rl r = Inr ?rl'" by (rule add_ok_full[OF ok f])
  have o: "ring_ok ?rl'" using f L h' by (auto simp: ring_ok_def)
  have len: "length (ring_contents rl) = ?n" by (simp add: ring_contents_def)
  have nL: "nat ?L = ?n" using f by simp
  have c: "ring_contents ?rl' = take ?n (r # ring_contents rl)"
  proof (rule nth_equalityI)
    show "length (ring_contents ?rl') = length (take ?n (r # ring_contents rl))"
      using len by (simp add: ring_contents_def)
  next
    fix i assume "i < length (ring_contents ?rl')"
    then have i: "i < ?n" by (simp add: ring_contents_def)
    show "ring_contents ?rl' ! i = take ?n (r # ring_contents rl) ! i"
    proof (cases i)
      case 0
      have "(?L + ?h') mod ?L = ?h'" using h' by simp
      moreover have "nat ?h' < ?n" using h' f by auto
      ultimately show ?thesis using 0 i unfolding ring_contents_def by simp
    next
      case (Suc j)
      with i have j: "j < ?n" "Suc j < ?n" by simp_all
      let ?idx = "(?L + ?h' - int (Suc j)) mod ?L"
      have e: "?idx = (?L + head rl - int j) mod ?L"
        by (rule ring_shift)
      have ne: "?idx \<noteq> ?h'"
        using ring_other[of "int (Suc j)" ?L ?h'] j f h' by simp
      have idx: "0 \<le> ?idx" "?idx < ?L" using L by auto
      have ne': "nat ?idx \<noteq> nat ?h'"
      proof
        assume "nat ?idx = nat ?h'"
        then have "int (nat ?idx) = int (nat ?h')" by (simp only:)
        then have "?idx = ?h'" using idx(1) h'(1) by (simp only: int_nat_eq if_True)
        with ne show False by (simp only:)
      qed
      have "ring_contents ?rl' ! i = (buff rl)[nat ?h' := r] ! nat ?idx"
        using i Suc unfolding ring_contents_def by simp
      also have "\<dots> = buff rl ! nat ?idx" using ne' by simp
      also have "\<dots> = ring_contents rl ! j" using j e unfolding ring_contents_def by simp
      finally show ?thesis using Suc i by simp
    qed
  qed
  with a o nL show ?thesis by auto
qed


lemma toSlice_index:
  assumes ok: "ring_ok rl" and b: "limit rl + int (length (buff rl)) \<le> 2 ^ 63"
    and i: "i < length (buff rl)"
  shows "go_rem (wrap64 (wrap64 (limit rl + head rl) - int i)) (limit rl)
           = (limit rl + head rl - int i) mod limit rl"
    and "0 \<le> (limit rl + head rl - int i) mod limit rl"
    and "(limit rl + head rl - int i) mod limit rl < int (length (buff rl))"
proof -
  let ?L = "limit rl" and ?h = "head rl" and ?n = "int (length (buff rl))"
  from ok have L: "1 \<le> ?L" and n: "?n \<le> ?L"
    and h: "- 1 \<le> ?h" "?h < ?L" and hn: "?n < ?L \<Longrightarrow> ?h = ?n - 1"
    by (auto simp: ring_ok_def split: if_splits)
  have pos: "0 \<le> ?L + ?h - int i"
  proof (cases "?n < ?L")
    case True with hn i show ?thesis by simp
  next
    case False with n h i ok show ?thesis by (auto simp: ring_ok_def)
  qed
  have "?h \<le> ?n - 1"
  proof (cases "?n < ?L")
    case True with hn show ?thesis by simp
  next
    case False with n h show ?thesis by simp
  qed
  with b have up: "?L + ?h < 2 ^ 63" by linarith
  have w1: "wrap64 (?L + ?h) = ?L + ?h" using up L h by (intro wrap64_id) auto
  have w2: "wrap64 (?L + ?h - int i) = ?L + ?h - int i" using up pos by (intro wrap64_id) auto
  show "go_rem (wrap64 (wrap64 (?L + ?h) - int i)) ?L = (?L + ?h - int i) mod ?L"
    using pos L by (simp only: w1 w2) (simp add: go_rem_nonneg)
  show "0 \<le> (?L + ?h - int i) mod ?L" using L by simp
  show "(?L + ?h - int i) mod ?L < ?n"
  proof (cases "?n < ?L")
    case True
    with hn have e: "?h = ?n - 1" by simp
    have "(?L + ?h - int i) mod ?L = ?h - int i"
      using e i True by (intro ring_small) simp_all
    with e i show ?thesis by simp
  next
    case False
    with n have "?n = ?L" by simp
    moreover have "(?L + ?h - int i) mod ?L < ?L" using L by simp
    ultimately show ?thesis by simp
  qed
qed

lemma toSliceLoop_ok:
  assumes ok: "ring_ok rl" and b: "limit rl + int (length (buff rl)) \<le> 2 ^ 63"
  shows "i \<le> length (buff rl) \<Longrightarrow> toSliceLoop rl i res = Inr (res @ drop i (ring_contents rl))"
proof (induction "length (buff rl) - i" arbitrary: i res)
  case 0
  then have "i = length (buff rl)" by simp
  then show ?case by (subst toSliceLoop.simps) (simp add: ring_contents_def)
next
  case (Suc k)
  then have i: "i < length (buff rl)" by simp
  from ok have L: "limit rl \<noteq> 0" by (auto simp: ring_ok_def)
  note ix = toSlice_index[OF ok b i]
  have k: "k = length (buff rl) - Suc i" using Suc.hyps(2) by simp
  have step: "toSliceLoop rl i res =
      toSliceLoop rl (Suc i) (res @ [buff rl ! nat ((limit rl + head rl - int i) mod limit rl)])"
    using i L ix by (subst toSliceLoop.simps) (simp add: Let_def)
  have d: "drop i (ring_contents rl) =
      buff rl ! nat ((limit rl + head rl - int i) mod limit rl) # drop (Suc i) (ring_contents rl)"
  proof -
    have "i < length (ring_contents rl)" using i by (simp add: ring_contents_def)
    then have "drop i (ring_contents rl) = ring_contents rl ! i # drop (Suc i) (ring_contents rl)"
      by (rule Cons_nth_drop_Suc[symmetric])
    moreover have "ring_contents rl ! i = buff rl ! nat ((limit rl + head rl - int i) mod limit rl)"
      using i by (simp add: ring_contents_def)
    ultimately show ?thesis by simp
  qed
  have "Suc i \<le> length (buff rl)" using i by simp
  from Suc.hyps(1)[OF k this] step d show ?case by simp
qed

lemma toSlice_ok:
  assumes ok: "ring_ok rl" and b: "limit rl + int (length (buff rl)) \<le> 2 ^ 63"
  shows "toSlice rl = Inr (ring_contents rl, rl\<lparr>cachedSlice := Some (ring_contents rl)\<rparr>)"
proof (cases "cachedSlice rl")
  case None
  then show ?thesis using toSliceLoop_ok[OF ok b, of 0 "[]"] by (simp add: toSlice_def)
next
  case (Some s)
  with ok have "s = ring_contents rl" by (simp add: ring_ok_def)
  with Some show ?thesis by (simp add: toSlice_def)
qed

lemma take_take_Cons: "take n (r # take n xs) = take n (r # xs)"
  by (cases n) (simp_all add: min_def)

lemma adds_ok:
  assumes "ring_ok rl"
  shows "\<exists>rl'. adds rl rs = Inr rl' \<and> ring_ok rl' \<and> limit rl' = limit rl \<and>
           ring_contents rl' = take (nat (limit rl)) (rev rs @ ring_contents rl)"
  using assms
proof (induction rs arbitrary: rl)
  case Nil
  then have "length (ring_contents rl) \<le> nat (limit rl)"
    by (auto simp: ring_contents_def ring_ok_def)
  with Nil show ?case by simp
next
  case (Cons r rs)
  from add_ok[OF Cons.prems, of r] obtain rl1 where
    a: "add rl r = Inr rl1" and o: "ring_ok rl1" and l: "limit rl1 = limit rl"
    and c: "ring_contents rl1 = take (nat (limit rl)) (r # ring_contents rl)" by blast
  from Cons.IH[OF o] obtain rl' where
    a': "adds rl1 rs = Inr rl'" and o': "ring_ok rl'" and l': "limit rl' = limit rl1"
    and c': "ring_contents rl' = take (nat (limit rl1)) (rev rs @ ring_contents rl1)" by blast
  have "take (nat (limit rl)) (rev rs @ take (nat (limit rl)) (r # ring_contents rl))
        = take (nat (limit rl)) (rev rs @ r # ring_contents rl)"
    by (simp add: take_take_Cons min_def)
  with a a' o' l l' c c' show ?case by simp
qed

lemma ring_contents_new: "ring_contents (newRecordLog lim) = []"
  by (simp add: ring_contents_def newRecordLog_def)

lemma add_new_nonpositive:
  assumes "lim \<le> 0"
  shows "add (newRecordLog lim) rec = Inl (if lim = 0 then DivideByZero else IndexOutOfRange)"
  using assms by (simp add: add_def newRecordLog_def Let_def wrap64_def go_rem_def)

text \<open>
  Claim C10.  \<open>recordLog.add\<close> is total exactly when the size limit is at least 1:
  for every limit from 1 up to the largest Go \<^verbatim>\<open>int\<close>, no sequence of adds to a new
  log panics; for every limit of 0 or less the first add panics, and with limit 0 the
  panic is the division by zero of \<^verbatim>\<open>(rl.head + 1) % rl.limit\<close>.
\<close>

theorem recordLog_add_total_iff_limit_positive:
  "(1 \<le> lim \<and> lim < 2 ^ 63 \<longrightarrow> (\<exists>rl. adds (newRecordLog lim) recs = Inr rl))
   \<and> (lim \<le> 0 \<longrightarrow> (\<exists>p. add (newRecordLog lim) rec = Inl p))
   \<and> add (newRecordLog 0) rec = Inl DivideByZero"
proof (intro conjI impI)
  assume "1 \<le> lim \<and> lim < 2 ^ 63"
  then have "ring_ok (newRecordLog lim)" by (simp add: ring_ok_new)
  from adds_ok[OF this, of recs] show "\<exists>rl. adds (newRecordLog lim) recs = Inr rl" by blast
next
  assume "lim \<le> 0"
  then show "\<exists>p. add (newRecordLog lim) rec = Inl p" by (simp add: add_new_nonpositive)
next
  show "add (newRecordLog 0) rec = Inl DivideByZero" by (simp add: add_new_nonpositive)
qed

theorem recordLog_add_total_witness:
  "(\<exists>rl. adds (newRecordLog 2)
      [\<lparr>Time = 1, Action = ''TRIGGER'', BaseSHA = ''d0'', Target = [], Err = ''''\<rparr>,
       \<lparr>Time = 2, Action = ''MERGE'', BaseSHA = ''d0'', Target = [], Err = ''''\<rparr>,
       \<lparr>Time = 3, Action = ''WAIT'', BaseSHA = ''d1'', Target = [], Err = ''''\<rparr>] = Inr rl)
   \<and> (\<exists>p. add (newRecordLog (- 1))
          \<lparr>Time = 1, Action = ''TRIGGER'', BaseSHA = ''d0'', Target = [], Err = ''''\<rparr> = Inl p)"
  using recordLog_add_total_iff_limit_positive [of 2
      "[\<lparr>Time = 1, Action = ''TRIGGER'', BaseSHA = ''d0'', Target = [], Err = ''''\<rparr>,
       \<lparr>Time = 2, Action = ''MERGE'', BaseSHA = ''d0'', Target = [], Err = ''''\<rparr>,
       \<lparr>Time = 3, Action = ''WAIT'', BaseSHA = ''d1'', Target = [], Err = ''''\<rparr>]"]
    recordLog_add_total_iff_limit_positive [of "- 1" _
      "\<lparr>Time = 1, Action = ''TRIGGER'', BaseSHA = ''d0'', Target = [], Err = ''''\<rparr>"]
  by simp

section \<open>Properties of the History\<close>

lemma keyRecords_snoc:
  "keyRecords (pre @ [c]) key =
     (if call_poolKey c = key then keyRecords pre key @ [recordOf c] else keyRecords pre key)"
  by (simp add: keyRecords_def)

lemma hist_ok_lookup:
  assumes "hist_ok lim h pre"
  shows "map_of (logs h) key = None \<Longrightarrow> keyRecords pre key = []"
    and "map_of (logs h) key = Some lg \<Longrightarrow>
           keyRecords pre key \<noteq> [] \<and> ring_ok lg \<and> limit lg = lim \<and>
           ring_contents lg = take (nat lim) (rev (keyRecords pre key))"
  using assms unfolding hist_ok_def by (auto split: option.splits dest: spec[of _ key])

lemma addRecord_ok:
  assumes ok: "hist_ok lim h pre" and lim: "1 \<le> lim" "lim < 2 ^ 63"
  shows "\<exists>h'. addRecord h (call_poolKey c) (recordOf c) = Inr h' \<and> hist_ok lim h' (pre @ [c])"
proof -
  let ?k = "call_poolKey c" and ?r = "recordOf c"
  from ok have ll: "logSizeLimit h = lim" and dd: "distinct (map fst (logs h))"
    by (simp_all add: hist_ok_def)
  define lg where "lg = (case map_of (logs h) ?k of None \<Rightarrow> newRecordLog lim | Some l \<Rightarrow> l)"
  have lg: "ring_ok lg \<and> limit lg = lim \<and>
            ring_contents lg = take (nat lim) (rev (keyRecords pre ?k))"
  proof (cases "map_of (logs h) ?k")
    case None
    with hist_ok_lookup(1)[OF ok] have "keyRecords pre ?k = []" by simp
    with None lim show ?thesis
      by (simp add: lg_def ring_ok_new ring_contents_new) (simp add: newRecordLog_def)
  next
    case (Some l)
    with hist_ok_lookup(2)[OF ok] show ?thesis by (simp add: lg_def)
  qed
  from add_ok[of lg ?r] lg obtain lg' where
    a: "add lg ?r = Inr lg'" and o: "ring_ok lg'" and l: "limit lg' = lim"
    and c: "ring_contents lg' = take (nat lim) (?r # ring_contents lg)" by auto
  have c': "ring_contents lg' = take (nat lim) (rev (keyRecords pre ?k @ [?r]))"
    using c lg by (simp add: take_take_Cons)
  define h' where "h' = h\<lparr>logs := AList.update ?k lg' (logs h)\<rparr>"
  have res: "addRecord h ?k ?r = Inr h'"
  proof (cases "map_of (logs h) ?k")
    case None
    then have "lg = newRecordLog lim" by (simp add: lg_def)
    with None a ll show ?thesis
      by (simp add: addRecord_def Let_def update_conv' h'_def)
  next
    case (Some l)
    then have "lg = l" by (simp add: lg_def)
    with Some a show ?thesis by (simp add: addRecord_def Let_def h'_def)
  qed
  have m: "map_of (logs h') = (map_of (logs h))(?k \<mapsto> lg')"
    by (simp add: h'_def update_conv')
  have "hist_ok lim h' (pre @ [c])"
    unfolding hist_ok_def
  proof (intro conjI allI)
    show "logSizeLimit h' = lim" using ll by (simp add: h'_def)
  next
    show "distinct (map fst (logs h'))" using dd by (simp add: h'_def distinct_update)
  next
    fix key
    show "case map_of (logs h') key of
            None \<Rightarrow> keyRecords (pre @ [c]) key = []
          | Some lg \<Rightarrow> keyRecords (pre @ [c]) key \<noteq> [] \<and> ring_ok lg \<and> limit lg = lim \<and>
              ring_contents lg = take (nat lim) (rev (keyRecords (pre @ [c]) key))"
    proof (cases "key = ?k")
      case True
      with m o l c' show ?thesis by (simp add: keyRecords_snoc)
    next
      case False
      then have "map_of (logs h') key = map_of (logs h) key" using m by simp
      moreover have "keyRecords (pre @ [c]) key = keyRecords pre key"
        using False by (auto simp: keyRecords_snoc)
      ultimately show ?thesis using ok unfolding hist_ok_def
        by (auto split: option.splits dest: spec[of _ key])
    qed
  qed
  with res show ?thesis by blast
qed

lemma Records_ok:
  assumes lim: "1 \<le> lim" "lim < 2 ^ 63"
  shows "hist_ok lim h pre \<Longrightarrow> \<exists>h'. Records h cs = Inr h' \<and> hist_ok lim h' (pre @ cs)"
proof (induction cs arbitrary: h pre)
  case Nil
  then show ?case by simp
next
  case (Cons c cs)
  from addRecord_ok[OF Cons.prems lim, of c] obtain h1 where
    a: "addRecord h (call_poolKey c) (recordOf c) = Inr h1" and o: "hist_ok lim h1 (pre @ [c])"
    by blast
  from Cons.IH[OF o] obtain h' where
    "Records h1 cs = Inr h'" "hist_ok lim h' ((pre @ [c]) @ cs)" by blast
  with a show ?case by (simp add: History_Record_def recordOf_def)
qed

lemma New_ok: "New lim pth = Inr \<lparr>logs = [], logSizeLimit = lim, path = pth\<rparr>"
  by (simp add: New_def readHistory_def Let_def)

lemma hist_ok_New: "hist_ok lim \<lparr>logs = [], logSizeLimit = lim, path = pth\<rparr> []"
  by (simp add: hist_ok_def keyRecords_def)

lemma allRecordsLoop_ok:
  assumes "\<forall>(k, lg) \<in> set l. ring_ok lg \<and> limit lg + int (length (buff lg)) \<le> 2 ^ 63"
  shows "allRecordsLoop l =
           Inr (map (\<lambda>(k, lg). (k, ring_contents lg)) l,
                map (\<lambda>(k, lg). (k, lg\<lparr>cachedSlice := Some (ring_contents lg)\<rparr>)) l)"
  using assms
proof (induction l)
  case Nil
  then show ?case by simp
next
  case (Cons x l)
  obtain k lg where x: "x = (k, lg)" by (cases x)
  with Cons.prems have "ring_ok lg" "limit lg + int (length (buff lg)) \<le> 2 ^ 63" by auto
  from toSlice_ok[OF this] Cons x show ?case by simp
qed

lemma map_of_map_snd: "map_of (map (\<lambda>(k, v). (k, f v)) l) key = map_option f (map_of l key)"
  by (induction l) auto


lemma length_ring_contents: "length (ring_contents rl) = length (buff rl)"
  by (simp add: ring_contents_def)

lemma ring_index_range:
  assumes ok: "ring_ok rl" and i: "i < length (buff rl)"
  shows "nat ((limit rl + head rl - int i) mod limit rl) < length (buff rl)"
proof -
  let ?L = "limit rl" and ?h = "head rl" and ?n = "int (length (buff rl))"
  from ok have L: "1 \<le> ?L" and n: "?n \<le> ?L"
    and hn: "?n < ?L \<Longrightarrow> ?h = ?n - 1"
    by (auto simp: ring_ok_def split: if_splits)
  have nn: "0 \<le> (?L + ?h - int i) mod ?L" using L by simp
  have "(?L + ?h - int i) mod ?L < ?n"
  proof (cases "?n < ?L")
    case True
    with hn have e: "?h = ?n - 1" by simp
    have "(?L + ?h - int i) mod ?L = ?h - int i"
      using e i True by (intro ring_small) simp_all
    with e i show ?thesis by simp
  next
    case False
    with n have "?n = ?L" by simp
    moreover have "(?L + ?h - int i) mod ?L < ?L" using L by simp
    ultimately show ?thesis by simp
  qed
  with nn show ?thesis by linarith
qed

lemma ring_index_inj:
  assumes ok: "ring_ok rl"
  shows "inj_on (\<lambda>i. nat ((limit rl + head rl - int i) mod limit rl)) {0..<length (buff rl)}"
proof (rule inj_onI)
  fix i j
  let ?L = "limit rl" and ?h = "head rl"
  assume i: "i \<in> {0..<length (buff rl)}" and j: "j \<in> {0..<length (buff rl)}"
    and e: "nat ((?L + ?h - int i) mod ?L) = nat ((?L + ?h - int j) mod ?L)"
  from ok have L: "1 \<le> ?L" and n: "int (length (buff rl)) \<le> ?L"
    by (auto simp: ring_ok_def)
  have "0 \<le> (?L + ?h - int i) mod ?L" "0 \<le> (?L + ?h - int j) mod ?L" using L by simp_all
  with e have "(?L + ?h - int i) mod ?L = (?L + ?h - int j) mod ?L" by linarith
  then have "?L dvd (?L + ?h - int i) - (?L + ?h - int j)" by (simp only: mod_eq_dvd_iff)
  moreover have "(?L + ?h - int i) - (?L + ?h - int j) = int j - int i" by simp
  ultimately have d: "?L dvd int j - int i" by simp
  have b: "\<bar>int j - int i\<bar> < ?L" using i j n by auto
  have "int j - int i = 0"
  proof (rule ccontr)
    assume "int j - int i \<noteq> 0"
    from dvd_imp_le_int[OF this d] b L show False by simp
  qed
  then show "i = j" by simp
qed

lemma mset_ring_contents:
  assumes ok: "ring_ok rl"
  shows "mset (ring_contents rl) = mset (buff rl)"
proof -
  let ?n = "length (buff rl)"
  let ?f = "\<lambda>i. nat ((limit rl + head rl - int i) mod limit rl)"
  have sub: "?f ` {0..<?n} \<subseteq> {0..<?n}"
    using ring_index_range[OF ok] by auto
  have inj: "inj_on ?f {0..<?n}" by (rule ring_index_inj[OF ok])
  have "card (?f ` {0..<?n}) = card {0..<?n}" using inj by (rule card_image)
  with sub have img: "?f ` {0..<?n} = {0..<?n}" by (intro card_subset_eq) simp_all
  have "mset (ring_contents rl) = image_mset (\<lambda>i. buff rl ! i) (image_mset ?f (mset [0..<?n]))"
    by (simp add: ring_contents_def multiset.map_comp comp_def)
  also have "image_mset ?f (mset [0..<?n]) = mset_set (?f ` {0..<?n})"
    using inj by (simp add: image_mset_mset_set)
  also have "\<dots> = mset [0..<?n]" by (simp add: img)
  also have "image_mset (\<lambda>i. buff rl ! i) (mset [0..<?n]) = mset (map (\<lambda>i. buff rl ! i) [0..<?n])"
    by simp
  also have "map (\<lambda>i. buff rl ! i) [0..<?n] = buff rl" by (rule map_nth)
  finally show ?thesis .
qed

lemma held_mono: "held lim pre key \<le> held lim (pre @ rest) key"
  by (simp add: held_def keyRecords_def min_def)

lemma ring_contents_cache: "ring_contents (lg\<lparr>cachedSlice := c\<rparr>) = ring_contents lg"
  by (simp add: ring_contents_def)

lemma ring_ok_cache: "ring_ok lg \<Longrightarrow> ring_ok (lg\<lparr>cachedSlice := Some (ring_contents lg)\<rparr>)"
  by (simp add: ring_ok_def ring_contents_cache)

lemma hist_ok_buff:
  assumes ok: "hist_ok lim h pre" and m: "map_of (logs h) key = Some lg"
  shows "length (buff lg) = held lim pre key"
    and "mset (buff lg) = mset (take (nat lim) (rev (keyRecords pre key)))"
    and "ring_ok lg" and "limit lg = lim"
proof -
  from hist_ok_lookup(2)[OF ok m] have r: "ring_ok lg" and l: "limit lg = lim"
    and c: "ring_contents lg = take (nat lim) (rev (keyRecords pre key))" by simp_all
  show "ring_ok lg" "limit lg = lim" by fact+
  have "length (buff lg) = length (ring_contents lg)" by (simp add: length_ring_contents)
  also have "\<dots> = held lim pre key" by (simp add: c held_def min.commute)
  finally show "length (buff lg) = held lim pre key" .
  show "mset (buff lg) = mset (take (nat lim) (rev (keyRecords pre key)))"
    using mset_ring_contents[OF r] c by simp
qed

lemma AllRecords_ok:
  assumes ok: "hist_ok lim h pre"
    and sz: "\<forall>key. lim + int (held lim pre key) \<le> 2 ^ 63"
  shows "\<exists>res h'. AllRecords h = Inr (res, h') \<and> hist_ok lim h' pre \<and>
           (\<forall>key. map_of res key =
                   (if keyRecords pre key = [] then None
                    else Some (take (nat lim) (rev (keyRecords pre key)))))"
proof -
  have dist: "distinct (map fst (logs h))" and ll: "logSizeLimit h = lim"
    using ok by (simp_all add: hist_ok_def)
  have each: "\<forall>(k, lg) \<in> set (logs h). ring_ok lg \<and> limit lg + int (length (buff lg)) \<le> 2 ^ 63"
  proof (clarify)
    fix k lg assume "(k, lg) \<in> set (logs h)"
    with dist have m: "map_of (logs h) k = Some lg" by simp
    from hist_ok_buff[OF ok m] sz[rule_format, of k]
    show "ring_ok lg \<and> limit lg + int (length (buff lg)) \<le> 2 ^ 63" by simp
  qed
  let ?res = "map (\<lambda>(k, lg). (k, ring_contents lg)) (logs h)"
  let ?l' = "map (\<lambda>(k, lg). (k, lg\<lparr>cachedSlice := Some (ring_contents lg)\<rparr>)) (logs h)"
  let ?h' = "h\<lparr>logs := ?l'\<rparr>"
  from allRecordsLoop_ok[OF each] have ar: "AllRecords h = Inr (?res, ?h')"
    by (simp add: AllRecords_def)
  have look: "map_of ?res key =
          (if keyRecords pre key = [] then None
           else Some (take (nat lim) (rev (keyRecords pre key))))" for key
  proof (cases "map_of (logs h) key")
    case None
    with hist_ok_lookup(1)[OF ok] show ?thesis by (simp add: map_of_map_snd)
  next
    case (Some lg)
    with hist_ok_lookup(2)[OF ok] show ?thesis by (simp add: map_of_map_snd)
  qed
  have fst': "map fst ?l' = map fst (logs h)" by (induction "logs h") auto
  have ok': "hist_ok lim ?h' pre"
    unfolding hist_ok_def
  proof (intro conjI allI)
    show "logSizeLimit ?h' = lim" using ll by simp
    show "distinct (map fst (logs ?h'))" using dist by (simp add: fst' del: map_map)
  next
    fix key
    show "case map_of (logs ?h') key of
            None \<Rightarrow> keyRecords pre key = []
          | Some lg \<Rightarrow> keyRecords pre key \<noteq> [] \<and> ring_ok lg \<and> limit lg = lim \<and>
              ring_contents lg = take (nat lim) (rev (keyRecords pre key))"
    proof (cases "map_of (logs h) key")
      case None
      with hist_ok_lookup(1)[OF ok] show ?thesis by (simp add: map_of_map_snd)
    next
      case (Some lg)
      from hist_ok_lookup(2)[OF ok Some] have
        a: "keyRecords pre key \<noteq> []" and b: "ring_ok lg" and c: "limit lg = lim"
        and d: "ring_contents lg = take (nat lim) (rev (keyRecords pre key))" by simp_all
      let ?lg' = "lg\<lparr>cachedSlice := Some (ring_contents lg)\<rparr>"
      have m': "map_of (logs ?h') key = Some ?lg'" using Some by (simp add: map_of_map_snd)
      have "ring_ok ?lg'" by (rule ring_ok_cache[OF b])
      moreover have "limit ?lg' = lim" using c by simp
      moreover have "ring_contents ?lg' = take (nat lim) (rev (keyRecords pre key))"
        using d by (simp only: ring_contents_cache)
      ultimately show ?thesis using a by (simp only: m' option.case) simp
    qed
  qed
  from ar ok' look show ?thesis by blast
qed


lemma held_small:
  assumes "0 \<le> lim" and "lim \<le> 2 ^ 62"
  shows "lim + int (held lim calls key) \<le> 2 ^ 63"
proof -
  have "held lim calls key \<le> nat lim" by (simp add: held_def)
  then have "int (held lim calls key) \<le> lim" using assms(1) by linarith
  moreover have "(2::int) ^ 62 + 2 ^ 62 = 2 ^ 63" by simp
  ultimately show ?thesis using assms(2) by linarith
qed

lemma runOps_ok:
  assumes lim: "1 \<le> lim" "lim < 2 ^ 63"
  shows "hist_ok lim h pre \<Longrightarrow>
         \<forall>key. lim + int (held lim (pre @ callsOf ops) key) \<le> 2 ^ 63 \<Longrightarrow>
         \<exists>h' snaps. runOps h ops = Inr (h', snaps) \<and> hist_ok lim h' (pre @ callsOf ops) \<and>
           list_all2 (\<lambda>snap sofar. \<forall>key. map_of snap key =
                      (if keyRecords sofar key = [] then None
                       else Some (take (nat lim) (rev (keyRecords sofar key)))))
             snaps (readPoints pre ops)"
proof (induction ops arbitrary: h pre)
  case Nil
  then show ?case by simp
next
  case (Cons op ops)
  show ?case
  proof (cases op)
    case (RecordOp c)
    from addRecord_ok[OF Cons.prems(1) lim, of c] obtain h1 where
      a: "addRecord h (call_poolKey c) (recordOf c) = Inr h1" and o: "hist_ok lim h1 (pre @ [c])"
      by blast
    have sz: "\<forall>key. lim + int (held lim ((pre @ [c]) @ callsOf ops) key) \<le> 2 ^ 63"
      using Cons.prems(2) RecordOp by simp
    from Cons.IH[OF o sz] obtain h' snaps where
      "runOps h1 ops = Inr (h', snaps)" "hist_ok lim h' ((pre @ [c]) @ callsOf ops)"
      "list_all2 (\<lambda>snap sofar. \<forall>key. map_of snap key =
                      (if keyRecords sofar key = [] then None
                       else Some (take (nat lim) (rev (keyRecords sofar key)))))
             snaps (readPoints (pre @ [c]) ops)" by blast
    with a RecordOp show ?thesis by (simp add: History_Record_def recordOf_def)
  next
    case AllRecordsOp
    have sz0: "\<forall>key. lim + int (held lim pre key) \<le> 2 ^ 63"
    proof
      fix key
      have "int (held lim pre key) \<le> int (held lim (pre @ callsOf ops) key)"
        using held_mono[of lim pre key "callsOf ops"] by simp
      with Cons.prems(2)[rule_format, of key] AllRecordsOp
      show "lim + int (held lim pre key) \<le> 2 ^ 63" by simp
    qed
    from AllRecords_ok[OF Cons.prems(1) sz0] obtain res h1 where
      a: "AllRecords h = Inr (res, h1)" and o: "hist_ok lim h1 pre"
      and r: "\<forall>key. map_of res key =
                   (if keyRecords pre key = [] then None
                    else Some (take (nat lim) (rev (keyRecords pre key))))" by blast
    have sz: "\<forall>key. lim + int (held lim (pre @ callsOf ops) key) \<le> 2 ^ 63"
      using Cons.prems(2) AllRecordsOp by simp
    from Cons.IH[OF o sz] obtain h' snaps where
      "runOps h1 ops = Inr (h', snaps)" "hist_ok lim h' (pre @ callsOf ops)"
      "list_all2 (\<lambda>snap sofar. \<forall>key. map_of snap key =
                      (if keyRecords sofar key = [] then None
                       else Some (take (nat lim) (rev (keyRecords sofar key)))))
             snaps (readPoints pre ops)" by blast
    with a r AllRecordsOp show ?thesis by simp
  qed
qed

text \<open>
  Claim C6, as the code has it.  For every capacity of at least 1 (up to the largest Go
  \<^verbatim>\<open>int\<close>), every key and every sequence of \<open>History.Record\<close> calls on a new History, no
  call panics and the ring of the key holds at most the capacity, namely the most recent
  records passed for the key: on overflow the oldest are the ones overwritten.  For
  every sequence of \<open>Record\<close> calls and reads in any order, as long as the capacity plus
  the number of records a ring holds does not exceed \<open>2 ^ 63\<close> (always so for a capacity
  up to \<open>2 ^ 62\<close>), no call panics and every read returns, for every key, the records
  passed for the key before the read, newest first, cut to the capacity.
\<close>

theorem history_ring_bounded_newest_first:
  assumes "1 \<le> lim" and "lim < 2 ^ 63"
  shows "\<exists>h0. New lim pth = Inr h0 \<and>
           (\<exists>h. Records h0 calls = Inr h \<and>
              (\<forall>key lg. map_of (logs h) key = Some lg \<longrightarrow>
                 int (length (buff lg)) \<le> lim \<and>
                 mset (buff lg) = mset (take (nat lim) (rev (keyRecords calls key))))) \<and>
           (lim \<le> 2 ^ 62 \<or> (\<forall>key. lim + int (held lim (callsOf ops) key) \<le> 2 ^ 63) \<longrightarrow>
              (\<exists>h snaps. runOps h0 ops = Inr (h, snaps) \<and>
                 (\<forall>key lg. map_of (logs h) key = Some lg \<longrightarrow> int (length (buff lg)) \<le> lim) \<and>
                 list_all2 (\<lambda>snap sofar. \<forall>key. map_of snap key =
                      (if keyRecords sofar key = [] then None
                       else Some (take (nat lim) (rev (keyRecords sofar key)))))
                   snaps (readPoints [] ops)))"
proof -
  let ?h0 = "\<lparr>logs = [], logSizeLimit = lim, path = pth\<rparr>"
  have n: "New lim pth = Inr ?h0" by (rule New_ok)
  have bound: "int (length (buff lg)) \<le> lim"
    if "hist_ok lim h cs" "map_of (logs h) key = Some lg" for h cs key lg
    using hist_ok_buff(3,4)[OF that] by (simp add: ring_ok_def)
  from Records_ok[OF assms hist_ok_New, of pth calls] obtain h where
    r: "Records ?h0 calls = Inr h" and ok: "hist_ok lim h calls" by auto
  have A: "\<exists>h. Records ?h0 calls = Inr h \<and>
              (\<forall>key lg. map_of (logs h) key = Some lg \<longrightarrow>
                 int (length (buff lg)) \<le> lim \<and>
                 mset (buff lg) = mset (take (nat lim) (rev (keyRecords calls key))))"
    using r bound[OF ok] hist_ok_buff(2)[OF ok] by blast
  have B: "\<exists>h snaps. runOps ?h0 ops = Inr (h, snaps) \<and>
                 (\<forall>key lg. map_of (logs h) key = Some lg \<longrightarrow> int (length (buff lg)) \<le> lim) \<and>
                 list_all2 (\<lambda>snap sofar. \<forall>key. map_of snap key =
                      (if keyRecords sofar key = [] then None
                       else Some (take (nat lim) (rev (keyRecords sofar key)))))
                   snaps (readPoints [] ops)"
    if c: "lim \<le> 2 ^ 62 \<or> (\<forall>key. lim + int (held lim (callsOf ops) key) \<le> 2 ^ 63)"
  proof -
    have sz: "\<forall>key. lim + int (held lim ([] @ callsOf ops) key) \<le> 2 ^ 63"
      using c assms(1) held_small[of lim "callsOf ops"] by auto
    from runOps_ok[OF assms hist_ok_New sz, of pth] obtain h snaps where
      "runOps ?h0 ops = Inr (h, snaps)" and o: "hist_ok lim h ([] @ callsOf ops)"
      and "list_all2 (\<lambda>snap sofar. \<forall>key. map_of snap key =
                      (if keyRecords sofar key = [] then None
                       else Some (take (nat lim) (rev (keyRecords sofar key)))))
                   snaps (readPoints [] ops)" by blast
    with bound[OF o] show ?thesis by blast
  qed
  from n A B show ?thesis by blast
qed

text \<open>
  Claim C6 as stated fails for a capacity near the largest \<^verbatim>\<open>int\<close>: the index arithmetic
  of \<open>toSlice\<close> wraps around, and the read after two records panics.
\<close>

theorem history_read_overflow_counterexample:
  "New 9223372036854775807 [] = Inr \<lparr>logs = [], logSizeLimit = 9223372036854775807, path = []\<rparr> \<and>
   runOps \<lparr>logs = [], logSizeLimit = 9223372036854775807, path = []\<rparr>
     [RecordOp (exampleCall ''o/r:master'' ''TRIGGER'' 10),
      RecordOp (exampleCall ''o/r:master'' ''MERGE'' 30),
      AllRecordsOp] = Inl IndexOutOfRange"
  by (simp add: New_def History_Record_def addRecord_def add_def newRecordLog_def sortByNum_def
        exampleCall_def AllRecords_def toSlice_def toSliceLoop.simps Let_def wrap64_def
        go_rem_def update_conv')

lemma recordOf_exampleCall: "recordOf (exampleCall key action t) = exampleRecord action t"
  by (simp add: recordOf_def exampleCall_def exampleRecord_def sortByNum_def)

theorem history_ring_witness:
  "(1::int) \<le> 2 \<and> (2::int) < 2 ^ 63 \<and> (2::int) \<le> 2 ^ 62 \<and>
   (\<exists>h0 h snaps.
      New 2 [] = Inr h0 \<and>
      runOps h0
        [RecordOp (exampleCall ''o/r:master'' ''TRIGGER'' 10), AllRecordsOp,
         RecordOp (exampleCall ''o/r:dev'' ''WAIT'' 20),
         RecordOp (exampleCall ''o/r:master'' ''MERGE'' 30),
         RecordOp (exampleCall ''o/r:master'' ''WAIT'' 40), AllRecordsOp] = Inr (h, snaps) \<and>
      list_all2 (\<lambda>snap expected. map_of snap ''o/r:master'' = Some expected) snaps
        [[exampleRecord ''TRIGGER'' 10],
         [exampleRecord ''WAIT'' 40, exampleRecord ''MERGE'' 30]]) \<and>
   (\<exists>h0 h lg.
      New 2 [] = Inr h0 \<and>
      Records h0
        [exampleCall ''o/r:master'' ''TRIGGER'' 10, exampleCall ''o/r:dev'' ''WAIT'' 20,
         exampleCall ''o/r:master'' ''MERGE'' 30, exampleCall ''o/r:master'' ''WAIT'' 40] = Inr h \<and>
      map_of (logs h) ''o/r:master'' = Some lg \<and> int (length (buff lg)) \<le> 2 \<and>
      mset (buff lg) = {#exampleRecord ''WAIT'' 40, exampleRecord ''MERGE'' 30#})"
proof -
  let ?k = "''o/r:master''"
  let ?c1 = "exampleCall ?k ''TRIGGER'' 10" and ?c2 = "exampleCall ''o/r:dev'' ''WAIT'' 20"
  let ?c3 = "exampleCall ?k ''MERGE'' 30" and ?c4 = "exampleCall ?k ''WAIT'' 40"
  let ?ops = "[RecordOp ?c1, AllRecordsOp, RecordOp ?c2, RecordOp ?c3, RecordOp ?c4, AllRecordsOp]"
  let ?calls = "[?c1, ?c2, ?c3, ?c4]"
  have a: "(1::int) \<le> 2" and b: "(2::int) < 2 ^ 63" and c: "(2::int) \<le> 2 ^ 62" by simp_all
  have k1: "keyRecords [?c1] ?k = [exampleRecord ''TRIGGER'' 10]"
    by (simp add: keyRecords_def recordOf_exampleCall) (simp add: exampleCall_def)
  have k4: "keyRecords ?calls ?k =
      [exampleRecord ''TRIGGER'' 10, exampleRecord ''MERGE'' 30, exampleRecord ''WAIT'' 40]"
    by (simp add: keyRecords_def recordOf_exampleCall) (simp add: exampleCall_def)
  have rp: "readPoints [] ?ops = [[?c1], ?calls]" by simp
  from history_ring_bounded_newest_first [OF a b, of "[]" ?calls ?ops] c
  obtain h0 h h' snaps where
    n: "New 2 [] = Inr h0"
    and r: "Records h0 ?calls = Inr h"
    and rb: "\<forall>key lg. map_of (logs h) key = Some lg \<longrightarrow>
                 int (length (buff lg)) \<le> 2 \<and>
                 mset (buff lg) = mset (take (nat 2) (rev (keyRecords ?calls key)))"
    and o: "runOps h0 ?ops = Inr (h', snaps)"
    and l: "list_all2 (\<lambda>snap sofar. \<forall>key. map_of snap key =
               (if keyRecords sofar key = [] then None
                else Some (take (nat 2) (rev (keyRecords sofar key)))))
             snaps (readPoints [] ?ops)"
    by blast
  from l obtain s1 s2 where s: "snaps = [s1, s2]"
    and p1: "\<forall>key. map_of s1 key =
               (if keyRecords [?c1] key = [] then None
                else Some (take (nat 2) (rev (keyRecords [?c1] key))))"
    and p2: "\<forall>key. map_of s2 key =
               (if keyRecords ?calls key = [] then None
                else Some (take (nat 2) (rev (keyRecords ?calls key))))"
    unfolding rp by (auto simp: list_all2_Cons2)
  from p1[rule_format, of ?k, unfolded k1] have q1: "map_of s1 ?k = Some [exampleRecord ''TRIGGER'' 10]"
    by (simp add: numeral_2_eq_2)
  from p2[rule_format, of ?k, unfolded k4] have q2:
    "map_of s2 ?k = Some [exampleRecord ''WAIT'' 40, exampleRecord ''MERGE'' 30]"
    by (simp add: numeral_2_eq_2)
  have L: "list_all2 (\<lambda>snap expected. map_of snap ?k = Some expected) snaps
        [[exampleRecord ''TRIGGER'' 10], [exampleRecord ''WAIT'' 40, exampleRecord ''MERGE'' 30]]"
    using s q1 q2 by simp
  have n0: "h0 = \<lparr>logs = [], logSizeLimit = 2, path = []\<rparr>" using n by (simp add: New_ok)
  from Records_ok[OF a b hist_ok_New, of "[]" ?calls] r obtain
    ok: "hist_ok 2 h ?calls" unfolding n0 by auto
  have "map_of (logs h) ?k \<noteq> None"
    using hist_ok_lookup(1)[OF ok, of ?k] by (auto simp: k4)
  then obtain lg where m: "map_of (logs h) ?k = Some lg" by auto
  from rb[rule_format, OF m, unfolded k4] have "int (length (buff lg)) \<le> 2"
    and "mset (buff lg) = {#exampleRecord ''WAIT'' 40, exampleRecord ''MERGE'' 30#}"
    by (simp_all add: numeral_2_eq_2)
  with a b c n r m o L show ?thesis by blast
qed

section \<open>Properties of the sorting of targets\<close>

lemma mset_insertionStep: "mset (insertionStep acc x) = add_mset x (mset acc)"
  by (induction acc) auto

lemma set_insertionStep: "set (insertionStep acc x) = insert x (set acc)"
  by (induction acc) auto

lemma sorted_insertionStep:
  "sorted_wrt (\<lambda>a b. Number b \<le> Number a) acc \<Longrightarrow>
   sorted_wrt (\<lambda>a b. Number b \<le> Number a) (insertionStep acc x)"
  by (induction acc) (auto simp: set_insertionStep)

lemma foldl_insertionStep:
  "sorted_wrt (\<lambda>a b. Number b \<le> Number a) acc \<Longrightarrow>
   sorted_wrt (\<lambda>a b. Number b \<le> Number a) (foldl insertionStep acc ts) \<and>
   mset (foldl insertionStep acc ts) = mset ts + mset acc"
  by (induction ts arbitrary: acc) (auto simp: sorted_insertionStep mset_insertionStep)

lemma mset_sortByNum: "mset (sortByNum ts) = mset ts"
  using foldl_insertionStep[of "[]" ts] by (simp add: sortByNum_def)

lemma sorted_sortByNum: "sorted (map Number (sortByNum ts))"
proof -
  have "sorted_wrt (\<lambda>a b. Number b \<le> Number a) (foldl insertionStep [] ts)"
    using foldl_insertionStep[of "[]" ts] by simp
  then have "sorted_wrt (\<lambda>a b. Number a \<le> Number b) (rev (foldl insertionStep [] ts))"
    by (simp add: sorted_wrt_rev)
  then show ?thesis by (simp add: sortByNum_def sorted_map)
qed

lemma sorted_by_distinct_key_unique:
  assumes m: "mset xs = mset ys" and d: "distinct (map Number xs)"
    and sx: "sorted (map Number xs)" and sy: "sorted (map Number ys)"
  shows "xs = ys"
proof -
  have mm: "mset (map Number xs) = mset (map Number ys)" using m by (metis mset_map)
  then have dy: "distinct (map Number ys)" using d by (metis mset_eq_imp_distinct_iff)
  have "set (map Number xs) = set (map Number ys)" using mm by (metis set_mset_mset)
  with sx sy d dy have e: "map Number xs = map Number ys"
    by (intro sorted_distinct_set_unique) auto
  have s: "set xs = set ys" using m by (metis set_mset_mset)
  from d have "inj_on Number (set xs)" by (simp add: distinct_map)
  with s have "inj_on Number (set xs \<union> set ys)" by simp
  with e show ?thesis by (simp add: inj_on_map_eq_map)
qed

lemma sortByNum_unique:
  assumes "distinct (map Number ts)" "mset ys = mset ts" "sorted (map Number ys)"
  shows "sortByNum ts = ys"
proof -
  have "distinct (map Number (sortByNum ts))"
    using assms(1) mset_sortByNum[of ts] by (metis mset_eq_imp_distinct_iff mset_map)
  then show ?thesis
    using assms by (intro sorted_by_distinct_key_unique) (simp_all add: mset_sortByNum sorted_sortByNum)
qed

text \<open>
  Claim C9, as the code has it.  \<open>History.Record\<close> stores the targets sorted ascending
  by pull-request number, a permutation of the targets passed, in the log of the pool
  key.  When the numbers of the targets are pairwise distinct, the stored list and the
  whole resulting History (hence every later \<open>AllRecords\<close>) are the same for every order
  in which the targets are passed; the stored list is then the one permutation of the
  targets that ascends by number, whatever the sorting algorithm.  \<^verbatim>\<open>ByNum\<close> compares
  numbers only, so the order of two targets with the same number is not fixed by the
  sort.
\<close>

theorem Record_targets_sorted_and_order_independent:
  "sorted (map Number (sortByNum targets)) \<and> mset (sortByNum targets) = mset targets \<and>
   (\<forall>h'. History_Record h poolKey action baseSHA err targets t = Inr h' \<longrightarrow>
      (\<exists>lg. map_of (logs h') poolKey = Some lg \<and>
         (\<exists>r \<in> set (buff lg). Target r = sortByNum targets \<and> Time r = t))) \<and>
   (distinct (map Number targets) \<and> mset targets' = mset targets \<longrightarrow>
      sortByNum targets' = sortByNum targets \<and>
      History_Record h poolKey action baseSHA err targets' t =
        History_Record h poolKey action baseSHA err targets t) \<and>
   (distinct (map Number targets) \<and> mset ys = mset targets \<and> sorted (map Number ys) \<longrightarrow>
      sortByNum targets = ys)"
proof (intro conjI allI impI)
  show "sorted (map Number (sortByNum targets))" by (rule sorted_sortByNum)
  show "mset (sortByNum targets) = mset targets" by (rule mset_sortByNum)
next
  fix h' assume a: "History_Record h poolKey action baseSHA err targets t = Inr h'"
  let ?r = "\<lparr>Time = t, Action = action, BaseSHA = baseSHA, Target = sortByNum targets, Err = err\<rparr>"
  have stored: "add lg0 ?r = Inr lg \<Longrightarrow> ?r \<in> set (buff lg)" for lg0 lg
    by (auto simp: add_def Let_def set_update_memI split: if_splits)
  from a obtain lg where "map_of (logs h') poolKey = Some lg" "?r \<in> set (buff lg)"
    by (auto simp: History_Record_def addRecord_def Let_def update_conv' dest: stored
             split: option.splits sum.splits if_splits)
  then show "\<exists>lg. map_of (logs h') poolKey = Some lg \<and>
         (\<exists>r \<in> set (buff lg). Target r = sortByNum targets \<and> Time r = t)"
    by (intro exI[of _ lg] conjI bexI[of _ ?r]) simp_all
next
  assume h: "distinct (map Number targets) \<and> mset targets' = mset targets"
  then have "sortByNum targets = sortByNum targets'"
    by (intro sortByNum_unique) (simp_all add: mset_sortByNum sorted_sortByNum)
  then show "sortByNum targets' = sortByNum targets" by simp
  then show "History_Record h poolKey action baseSHA err targets' t =
        History_Record h poolKey action baseSHA err targets t"
    by (simp add: History_Record_def)
next
  assume "distinct (map Number targets) \<and> mset ys = mset targets \<and> sorted (map Number ys)"
  then show "sortByNum targets = ys" by (intro sortByNum_unique) simp_all
qed


text \<open>
  Claim C9 as stated fails where two targets share a number: the two orders of such a
  pair are stored as they were passed.
\<close>

theorem Record_order_dependent_counterexample:
  "History_Record \<lparr>logs = [], logSizeLimit = 10, path = []\<rparr> ''o/r:master'' ''MERGE_BATCH'' ''d0'' []
     [\<lparr>Number = 7, Author = ''dev'', SHA = ''aaa'', Title = [], Ref = [], Link = [], CommitLink = []\<rparr>,
      \<lparr>Number = 7, Author = ''dev'', SHA = ''bbb'', Title = [], Ref = [], Link = [], CommitLink = []\<rparr>] 1
   \<noteq>
   History_Record \<lparr>logs = [], logSizeLimit = 10, path = []\<rparr> ''o/r:master'' ''MERGE_BATCH'' ''d0'' []
     [\<lparr>Number = 7, Author = ''dev'', SHA = ''bbb'', Title = [], Ref = [], Link = [], CommitLink = []\<rparr>,
      \<lparr>Number = 7, Author = ''dev'', SHA = ''aaa'', Title = [], Ref = [], Link = [], CommitLink = []\<rparr>] 1"
  by (simp add: History_Record_def addRecord_def add_def newRecordLog_def sortByNum_def
        Let_def wrap64_def go_rem_def update_conv')

theorem Record_targets_sorted_witness:
  "distinct (map Number [\<lparr>Number = 3, Author = ''dev'', SHA = ''ccc'', Title = [], Ref = [], Link = [], CommitLink = []\<rparr>, \<lparr>Number = 1, Author = ''dev'', SHA = ''aaa'', Title = [], Ref = [], Link = [], CommitLink = []\<rparr>]) \<and>
   mset [\<lparr>Number = 1, Author = ''dev'', SHA = ''aaa'', Title = [], Ref = [], Link = [], CommitLink = []\<rparr>, \<lparr>Number = 3, Author = ''dev'', SHA = ''ccc'', Title = [], Ref = [], Link = [], CommitLink = []\<rparr>] = mset [\<lparr>Number = 3, Author = ''dev'', SHA = ''ccc'', Title = [], Ref = [], Link = [], CommitLink = []\<rparr>, \<lparr>Number = 1, Author = ''dev'', SHA = ''aaa'', Title = [], Ref = [], Link = [], CommitLink = []\<rparr>] \<and>
   (\<exists>h'. History_Record \<lparr>logs = [], logSizeLimit = 10, path = []\<rparr> ''o/r:master'' ''MERGE_BATCH'' ''d0'' []
            [\<lparr>Number = 3, Author = ''dev'', SHA = ''ccc'', Title = [], Ref = [], Link = [], CommitLink = []\<rparr>, \<lparr>Number = 1, Author = ''dev'', SHA = ''aaa'', Title = [], Ref = [], Link = [], CommitLink = []\<rparr>] 1 = Inr h' \<and>
         History_Record \<lparr>logs = [], logSizeLimit = 10, path = []\<rparr> ''o/r:master'' ''MERGE_BATCH'' ''d0'' []
            [\<lparr>Number = 1, Author = ''dev'', SHA = ''aaa'', Title = [], Ref = [], Link = [], CommitLink = []\<rparr>, \<lparr>Number = 3, Author = ''dev'', SHA = ''ccc'', Title = [], Ref = [], Link = [], CommitLink = []\<rparr>] 1 = Inr h' \<and>
         (\<exists>lg. map_of (logs h') ''o/r:master'' = Some lg \<and>
            (\<exists>r \<in> set (buff lg). Target r = [\<lparr>Number = 1, Author = ''dev'', SHA = ''aaa'', Title = [], Ref = [], Link = [], CommitLink = []\<rparr>, \<lparr>Number = 3, Author = ''dev'', SHA = ''ccc'', Title = [], Ref = [], Link = [], CommitLink = []\<rparr>] \<and> Time r = 1)))"
proof -
  let ?h0 = "\<lparr>logs = [], logSizeLimit = 10, path = []\<rparr>"
  let ?ts = "[\<lparr>Number = 3, Author = ''dev'', SHA = ''ccc'', Title = [], Ref = [], Link = [], CommitLink = []\<rparr>, \<lparr>Number = 1, Author = ''dev'', SHA = ''aaa'', Title = [], Ref = [], Link = [], CommitLink = []\<rparr>]"
  let ?ts' = "[\<lparr>Number = 1, Author = ''dev'', SHA = ''aaa'', Title = [], Ref = [], Link = [], CommitLink = []\<rparr>, \<lparr>Number = 3, Author = ''dev'', SHA = ''ccc'', Title = [], Ref = [], Link = [], CommitLink = []\<rparr>]"
  note t = Record_targets_sorted_and_order_independent
             [of ?ts ?h0 "''o/r:master''" "''MERGE_BATCH''" "''d0''" "[]" 1 ?ts' ?ts']
  have d: "distinct (map Number ?ts)" and m: "mset ?ts' = mset ?ts" by simp_all
  have s: "sortByNum ?ts = ?ts'" by (simp add: sortByNum_def)
  obtain h' where r: "History_Record ?h0 ''o/r:master'' ''MERGE_BATCH'' ''d0'' [] ?ts 1 = Inr h'"
    by (simp add: History_Record_def addRecord_def add_def newRecordLog_def
          Let_def wrap64_def go_rem_def update_conv')
  from t d m have e: "History_Record ?h0 ''o/r:master'' ''MERGE_BATCH'' ''d0'' [] ?ts' 1 =
      History_Record ?h0 ''o/r:master'' ''MERGE_BATCH'' ''d0'' [] ?ts 1" by blast
  from t r have "\<exists>lg. map_of (logs h') ''o/r:master'' = Some lg \<and>
      (\<exists>r \<in> set (buff lg). Target r = sortByNum ?ts \<and> Time r = 1)" by blast
  with s have "\<exists>lg. map_of (logs h') ''o/r:master'' = Some lg \<and>
      (\<exists>r \<in> set (buff lg). Target r = ?ts' \<and> Time r = 1)" by (simp only:)
  with d m r e show ?thesis by (intro conjI exI[of _ h']) (simp_all only:)
qed

section \<open>Properties of the webhook handlers\<close>

lemma contains_prefix: "contains (sub @ b) sub"
proof (cases "sub @ b")
  case Nil
  then show ?thesis by simp
next
  case (Cons c s)
  have "take (length sub) (sub @ b) = sub" by simp
  with Cons show ?thesis by (simp del: take_Suc_Cons)
qed

lemma contains_mid: "contains (a @ sub @ b) sub"
proof (induction a)
  case Nil
  show ?case using contains_prefix[of sub b] by simp
next
  case (Cons c a)
  then show ?case by simp
qed

lemma contains_append_right: "contains s sub \<Longrightarrow> contains (s @ t) sub"
proof (induction s)
  case Nil
  then show ?case using contains_prefix[of "[]" t] by simp
next
  case (Cons c s)
  show ?case
  proof (cases "take (length sub) (c # s) = sub")
    case True
    then have "c # s = sub @ drop (length sub) (c # s)"
      by (metis append_take_drop_id)
    then have "(c # s) @ t = sub @ (drop (length sub) (c # s) @ t)" by (metis append.assoc)
    then show ?thesis using contains_prefix by metis
  next
    case False
    with Cons show ?thesis by simp
  qed
qed

lemma contains_append_left: "contains t sub \<Longrightarrow> contains (s @ t) sub"
  by (induction s) auto

text \<open>
  Claim C8.  For a ping, \<open>ProcessWebHook\<close> returns a body that begins with
  \<open>pong from lighthouse\<close> and no error, and calls no handler, whatever the mode and
  the configuration: the test for a ping comes before the test of the repository, so a
  ping from a repository without presubmits and postsubmits is answered with the pong.
\<close>

theorem ping_answered_before_repository_check:
  "ProcessWebHook env opts (PingHook r) = (''pong from lighthouse '' @ Version env, None, []) \<and>
   take 20 (fst (ProcessWebHook env opts (PingHook r))) = ''pong from lighthouse'' \<and>
   fst (snd (ProcessWebHook env opts (PingHook r))) = None"
  by (simp add: ProcessWebHook_def)

text \<open>
  Claim C4, as the code has it.  \<open>isReady\<close> is constantly true (its readiness check is
  left as a TODO), so \<^verbatim>\<open>/ready\<close> answers 204 in every state of the options, loaded or not;
  \<^verbatim>\<open>/health\<close> always answers 204.
\<close>

theorem ready_always_204:
  "responseStatus (ready opts newResponse r) = 204 \<and>
   responseStatus (health opts newResponse r) = 204"
  by (simp add: ready_def health_def isReady_def WriteHeader_def newResponse_def
        responseStatus_def StatusNoContent_def)

text \<open>
  Claim C4 as stated fails before any configuration is loaded: \<^verbatim>\<open>/ready\<close> does not answer
  503 there.
\<close>

theorem ready_before_config_load_counterexample:
  "\<not> configsLoaded (appOptions None None) \<and>
   responseStatus (ready (appOptions None None) newResponse
      \<lparr>Method = ''GET'', URLPath = ''/ready'', Body = Inr [], BodyClose = None\<rparr>)
     \<noteq> StatusServiceUnavailable"
  by (simp add: ready_def isReady_def WriteHeader_def newResponse_def configsLoaded_def
        appOptions_def responseStatus_def StatusNoContent_def StatusServiceUnavailable_def)

lemma ProcessWebHook_not_configured:
  assumes "repositoryNotConfigured env opts (Webhook_Repository webhook)"
    and "\<forall>r. webhook \<noteq> PingHook r"
  shows "ProcessWebHook env opts webhook =
           ([], Some (Error (''repository not configured: '' @ Link (Webhook_Repository webhook))), [])"
  using assms by (cases webhook) (simp_all add: ProcessWebHook_def)

lemma responseHTTPError_status:
  "responseStatus (responseHTTPError w 500 msg) = (case status w of None \<Rightarrow> 500 | Some c \<Rightarrow> c)"
  by (simp add: responseHTTPError_def httpError_def Write_def WriteHeader_def responseStatus_def
        Let_def split: option.splits)

lemma responseHTTPError_body:
  "body (responseHTTPError w code msg) = body w @ msg @ [CHR 0x0A]"
  by (simp add: responseHTTPError_def httpError_def Write_def WriteHeader_def Let_def)

lemma responseHTTPError_status_Some:
  "status (responseHTTPError w code msg) = Some (case status w of None \<Rightarrow> code | Some c \<Rightarrow> c)"
  by (simp add: responseHTTPError_def httpError_def Write_def WriteHeader_def Let_def
        split: option.splits)

lemma Write_after_status: "status w = Some c \<Longrightarrow> Write b w = w\<lparr>body := body w @ b\<rparr>"
  by (simp add: Write_def WriteHeader_def Let_def)


lemma processParsedWebhook_not_configured:
  assumes nc: "repositoryNotConfigured env opts (Webhook_Repository webhook)"
    and np: "\<forall>r. webhook \<noteq> PingHook r"
    and cl: "\<not> lhClientNil env"
    and w: "status w = None" "body w = []"
  shows "\<exists>w' es. processParsedWebhook env opts w webhook user token = Inr (w', es) \<and>
           responseStatus w' = 500 \<and> contains (body w') ''repository not configured'' \<and>
           (\<forall>e \<in> set es. \<not> isHandlerCall e)"
proof -
  let ?msg = "''500 Internal Server Error: '' @
      errorMessage (Error (''repository not configured: '' @ Link (Webhook_Repository webhook)))"
  define w1 where "w1 = (case GetAPIClientsErr env of
                  Some err \<Rightarrow> responseHTTPError w StatusInternalServerError
                                (''500 Internal Server Error: '' @ errorMessage err)
                | None \<Rightarrow> w)"
  define w2 where "w2 = responseHTTPError w1 StatusInternalServerError ?msg"
  define external where "external = ExternalPluginsForEvent env (Plugins (server opts))
      (Webhook_Kind webhook) (FullName (Webhook_Repository webhook))"
  define es where "es = [SetCredentials user token,
      AddAuthToSCMClient token (GitHubAppSecretDir env \<noteq> []), SetClientAgent (GetBotName env)] @
      (if length external > 0
       then [CallExternalPluginsWithWebhook external webhook (hmacToken env)] else [])"
  have r: "processParsedWebhook env opts w webhook user token = Inr (Write [] w2, es)"
    using cl ProcessWebHook_not_configured[OF nc np]
    by (simp add: processParsedWebhook_def Let_def w1_def w2_def es_def external_def)
  have s1: "status w1 = None \<or> status w1 = Some 500"
    using w by (auto simp: w1_def responseHTTPError_status_Some StatusInternalServerError_def
                  split: option.splits)
  then have s2: "status w2 = Some 500"
    by (auto simp: w2_def responseHTTPError_status_Some StatusInternalServerError_def)
  then have wr: "Write [] w2 = w2" by (simp add: Write_after_status)
  have "body w2 = body w1 @ (''500 Internal Server Error: '' @ ''repository not configured'' @
          ('': '' @ Link (Webhook_Repository webhook) @ [CHR 0x0A]))"
    by (simp add: w2_def responseHTTPError_body)
  then have c: "contains (body w2) ''repository not configured''"
    by (metis contains_mid contains_append_left)
  have h: "\<forall>e \<in> set es. \<not> isHandlerCall e" by (simp add: es_def)
  from r wr s2 c h show ?thesis by (simp add: responseStatus_def)
qed

text \<open>
  Claim C3, as the code has it.  In GitHub-App mode with a loaded configuration, a
  webhook other than a ping whose repository has no presubmit and no postsubmit makes
  \<open>ProcessWebHook\<close> return the error \<open>repository not configured\<close> without calling a
  handler; the request, once parsed and given its owner token, is answered with status
  500 and a body containing \<open>repository not configured\<close>, and no event handler (hence no
  internal plugin, and no job creation through one) is called.
\<close>

theorem unconfigured_repository_rejected:
  assumes "Method r = ''POST''" and "Body r = Inr b" and "BodyClose r = None"
    and "NewClient env (gitKind env) (GIT_SERVER env) [] = None"
    and "WebhooksParse env r (hmacToken env) = Inr (Some webhook)"
    and "\<forall>repo. webhook \<noteq> PingHook repo"
    and "GitHubAppSecretDir env \<noteq> []"
    and "FindToken env (GIT_SERVER env) (GitHubAppSecretDir env)
           (Namespace (Webhook_Repository webhook)) = Inr token"
    and "\<not> lhClientNil env"
    and "ConfigAgent (server opts) = Some agent" and "agentConfig agent = Some cfg"
    and "GetPostsubmits cfg (Webhook_Repository webhook) = []"
    and "GetPresubmits cfg (Webhook_Repository webhook) = []"
  shows "ProcessWebHook env opts webhook =
           ([], Some (Error (''repository not configured: '' @ Link (Webhook_Repository webhook))), []) \<and>
         (\<exists>w es. handleWebHookRequests env opts newResponse r = Inr (w, es) \<and>
            responseStatus w = StatusInternalServerError \<and>
            contains (body w) ''repository not configured'' \<and>
            (\<forall>e \<in> set es. \<not> isHandlerCall e))"
proof -
  have nc: "repositoryNotConfigured env opts (Webhook_Repository webhook)"
    using assms by (simp add: repositoryNotConfigured_def)
  have h: "handleWebHookRequests env opts newResponse r =
        processParsedWebhook env opts newResponse webhook (GitHubAppGitRemoteUsername env) token"
    using assms by (simp add: handleWebHookRequests_def createSCMClient_def Let_def)
  from processParsedWebhook_not_configured[OF nc assms(6) assms(9), of newResponse]
  have "\<exists>w es. handleWebHookRequests env opts newResponse r = Inr (w, es) \<and>
            responseStatus w = StatusInternalServerError \<and>
            contains (body w) ''repository not configured'' \<and>
            (\<forall>e \<in> set es. \<not> isHandlerCall e)"
    unfolding h by (simp add: newResponse_def StatusInternalServerError_def)
  with ProcessWebHook_not_configured[OF nc assms(6)] show ?thesis by blast
qed

text \<open>
  Claim C3 as stated fails for a ping: in GitHub-App mode, from a repository that no
  presubmit and no postsubmit names, the answer is 200 with the pong.
\<close>

theorem unconfigured_repository_ping_counterexample:
  "GitHubAppSecretDir (appEnv (PingHook unknownRepo) []) \<noteq> [] \<and>
   repositoryNotConfigured (appEnv (PingHook unknownRepo) []) (appOptions (Some emptyConfig) None)
     unknownRepo \<and>
   handleWebHookRequests (appEnv (PingHook unknownRepo) []) (appOptions (Some emptyConfig) None)
       newResponse postRequest =
     Inr (\<lparr>status = Some 200, body = ''pong from lighthouse 0.0.1''\<rparr>,
          [SetCredentials ''x-access-token'' ''owner-token'',
           AddAuthToSCMClient ''owner-token'' True, SetClientAgent ''lh-app''])"
  by (simp add: handleWebHookRequests_def processParsedWebhook_def ProcessWebHook_def
        repositoryNotConfigured_def appEnv_def appOptions_def emptyConfig_def unknownRepo_def
        postRequest_def newResponse_def createSCMClient_def gitKind_def hmacToken_def
        GetBotName_def Write_def WriteHeader_def Let_def)

theorem unconfigured_repository_rejected_witness:
  "ProcessWebHook (appEnv (PushHook unknownRepo ''{}'') []) (appOptions (Some emptyConfig) None)
       (PushHook unknownRepo ''{}'') =
     ([], Some (Error ''repository not configured: https://github.com/org/unknown''), []) \<and>
   (\<exists>w es. handleWebHookRequests (appEnv (PushHook unknownRepo ''{}'') [])
               (appOptions (Some emptyConfig) None) newResponse postRequest = Inr (w, es) \<and>
      responseStatus w = StatusInternalServerError \<and>
      contains (body w) ''repository not configured'' \<and>
      (\<forall>e \<in> set es. \<not> isHandlerCall e))"
  using unconfigured_repository_rejected
    [of postRequest "''{}''" "appEnv (PushHook unknownRepo ''{}'') []" "PushHook unknownRepo ''{}''"
        "''owner-token''" "appOptions (Some emptyConfig) None" "\<lparr>agentConfig = Some emptyConfig\<rparr>"
        emptyConfig]
  by (simp add: appEnv_def appOptions_def emptyConfig_def unknownRepo_def postRequest_def
        hmacToken_def gitKind_def)

text \<open>
  After the error response the handler goes on to the delivery to external plugins:
  an external plugin subscribed for the repository still receives the webhook.
\<close>

lemma unconfigured_repository_external_plugins_still_called:
  "handleWebHookRequests (appEnv (PushHook unknownRepo ''{}'') [notifier])
       (appOptions (Some emptyConfig) None) newResponse postRequest =
     Inr (\<lparr>status = Some 500,
            body = ''500 Internal Server Error: repository not configured: https://github.com/org/unknown'' @ [CHR 0x0A]\<rparr>,
          [SetCredentials ''x-access-token'' ''owner-token'',
           AddAuthToSCMClient ''owner-token'' True, SetClientAgent ''lh-app'',
           CallExternalPluginsWithWebhook [notifier] (PushHook unknownRepo ''{}'') ''secret''])"
  by (simp add: handleWebHookRequests_def processParsedWebhook_def ProcessWebHook_def
        repositoryNotConfigured_def appEnv_def appOptions_def emptyConfig_def unknownRepo_def
        postRequest_def newResponse_def createSCMClient_def gitKind_def hmacToken_def
        GetBotName_def Write_def WriteHeader_def Let_def responseHTTPError_def httpError_def
        StatusInternalServerError_def)

section \<open>Properties of the launcher\<close>


lemma natToString_nonempty: "natToString n \<noteq> []"
  by (subst natToString.simps) simp

lemma Itoa_nonempty: "Itoa i \<noteq> []"
  by (simp add: Itoa_def natToString_nonempty)









section \<open>Properties of the status controller\<close>

lemmas PipelineState_defs =
  TriggeredState_def PendingState_def RunningState_def SuccessState_def FailureState_def
  AbortedState_def ErrorState_def

text \<open>
  Claim C5.  Where running stages are reported (there is a running stage, and the git
  kind is not GitLab), the description is \<open>Pipeline running stage(s):\<close> with the names
  of the stages; when it is longer than 63 characters it becomes its first 59
  characters followed by three dots, 62 characters in all; when it has at most 63
  characters it is left as it is.  The description posted with \<^verbatim>\<open>CreateStatus\<close> is that
  description.
\<close>

theorem description_truncated_to_62:
  assumes "RunningStages activity \<noteq> []" and "kind \<noteq> ''gitlab''"
  shows "description (toScmStatusDescriptionRunningStages activity kind) =
           (let d = ''Pipeline running stage(s): '' @ Join (RunningStages activity) '', ''
            in if length d > 63 then take 59 d @ ''...'' else d) \<and>
         (length (''Pipeline running stage(s): '' @ Join (RunningStages activity) '', '') > 63 \<longrightarrow>
            length (description (toScmStatusDescriptionRunningStages activity kind)) = 62) \<and>
         (\<forall>owner repo sha input.
            CreateStatusCall owner repo sha input
              \<in> set (fst (snd (reportStatus env c nsp activity job))) \<longrightarrow>
            si_Desc input =
              description (toScmStatusDescriptionRunningStages activity (Controller_gitKind env)))"
proof (intro conjI allI impI)
  show d: "description (toScmStatusDescriptionRunningStages activity kind) =
           (let d = ''Pipeline running stage(s): '' @ Join (RunningStages activity) '', ''
            in if length d > 63 then take 59 d @ ''...'' else d)"
    using assms by (simp add: toScmStatusDescriptionRunningStages_def Let_def)
  assume "length (''Pipeline running stage(s): '' @ Join (RunningStages activity) '', '') > 63"
  then show "length (description (toScmStatusDescriptionRunningStages activity kind)) = 62"
    unfolding d by (simp add: Let_def)
next
  fix owner repo sha input
  assume "CreateStatusCall owner repo sha input
              \<in> set (fst (snd (reportStatus env c nsp activity job)))"
  then show "si_Desc input =
      description (toScmStatusDescriptionRunningStages activity (Controller_gitKind env))"
    by (auto simp: reportStatus_def postStatus_def Let_def split: if_splits option.splits)
qed


theorem description_truncated_witness:
  "RunningStages (activityWith RunningState
      [''build'', ''test'', ''package'', ''publish'', ''notify'', ''deploy'']) \<noteq> [] \<and>
   ''github'' \<noteq> ''gitlab'' \<and>
   description (toScmStatusDescriptionRunningStages (activityWith RunningState
      [''build'', ''test'', ''package'', ''publish'', ''notify'', ''deploy'']) ''github'') =
     ''Pipeline running stage(s): build, test, package, publish, n...'' \<and>
   length (description (toScmStatusDescriptionRunningStages (activityWith RunningState
      [''build'', ''test'', ''package'', ''publish'', ''notify'', ''deploy'']) ''github'')) = 62 \<and>
   description (toScmStatusDescriptionRunningStages (activityWith RunningState
      [''build'', ''test'']) ''github'') = ''Pipeline running stage(s): build, test'' \<and>
   fst (snd (reportStatus (controllerEnv (\<lambda>nsp name. Inl NotFound)) controller ''jx''
      (activityWith RunningState [''build'', ''test'', ''package'', ''publish'', ''notify'', ''deploy''])
      (jobWith PendingState [] None))) =
     [CreateStatusCall ''org'' ''repo'' ''abc''
        \<lparr>si_State = StateRunning, si_Label = ''unit'',
         si_Desc = ''Pipeline running stage(s): build, test, package, publish, n...'',
         si_Target = []\<rparr>,
      ReporterReportCall (jobWith PendingState [] None)]"
proof -
  let ?a = "activityWith RunningState
      [''build'', ''test'', ''package'', ''publish'', ''notify'', ''deploy'']"
  let ?b = "activityWith RunningState [''build'', ''test'']"
  let ?env = "controllerEnv (\<lambda>nsp name. Inl NotFound)"
  have ra: "RunningStages ?a = [''build'', ''test'', ''package'', ''publish'', ''notify'', ''deploy'']"
    and rb: "RunningStages ?b = [''build'', ''test'']"
    by (simp_all add: RunningStages_def activityWith_def)
  have na: "RunningStages ?a \<noteq> []" and nb: "RunningStages ?b \<noteq> []"
    by (simp_all add: ra rb)
  have k: "''github'' \<noteq> ''gitlab''" by simp
  have gk: "Controller_gitKind ?env = ''github''"
    by (simp add: Controller_gitKind_def controllerEnv_def tokenEnv_def)
  note ta = description_truncated_to_62[OF na k, of ?env controller "''jx''" "jobWith PendingState [] None"]
  note tb = description_truncated_to_62[OF nb k, of ?env controller "''jx''" "jobWith PendingState [] None"]
  have da: "description (toScmStatusDescriptionRunningStages ?a ''github'') =
      ''Pipeline running stage(s): build, test, package, publish, n...''"
    using ta by (simp add: ra Let_def)
  have la: "length (description (toScmStatusDescriptionRunningStages ?a ''github'')) = 62"
    using ta by (simp add: ra)
  have db: "description (toScmStatusDescriptionRunningStages ?b ''github'') =
      ''Pipeline running stage(s): build, test''"
    using tb by (simp add: rb Let_def)
  have sa: "scmStatus (toScmStatusDescriptionRunningStages ?a ''github'') = StateRunning"
    by (simp add: toScmStatusDescriptionRunningStages_def Let_def ra)
       (simp add: activityWith_def PipelineState_defs)
  have rs: "fst (snd (reportStatus ?env controller ''jx'' ?a (jobWith PendingState [] None))) =
     [CreateStatusCall ''org'' ''repo'' ''abc''
        \<lparr>si_State = StateRunning, si_Label = ''unit'',
         si_Desc = ''Pipeline running stage(s): build, test, package, publish, n...'',
         si_Target = []\<rparr>,
      ReporterReportCall (jobWith PendingState [] None)]"
    unfolding reportStatus_def Let_def gk da sa
    by (simp add: activityWith_def jobWith_def controllerEnv_def tokenEnv_def controller_def
          lastReportTerminal_def exampleToState_def getReportURLBase_def reportTarget_def
          postStatus_def Controller_createSCMClient_def Controller_gitKind_def Controller_createSCMToken_def
          Let_def PipelineState_defs)
  from na k da la db rs show ?thesis by (intro conjI)
qed

lemma reportStatus_terminal:
  "lastReportTerminal env job \<Longrightarrow> reportStatus env c nsp activity job = (job, [], None)"
  by (simp add: reportStatus_def Let_def)

lemma reportRun_terminal:
  "lastReportTerminal env job \<Longrightarrow>
   reportRun env c nsp job acts = (replicate (length acts) job, [])"
  by (induction acts) (simp_all add: reportStatus_terminal)

lemma terminalReports_replicate: "terminalReports env job (replicate n job) = 0"
  by (induction n) simp_all

lemma terminalReports_le_1:
  "terminalReports env job (fst (reportRun env c nsp job acts)) \<le> 1"
proof (induction acts arbitrary: job)
  case Nil
  show ?case by simp
next
  case (Cons a acts)
  obtain job' es p where r: "reportStatus env c nsp a job = (job', es, p)"
    by (cases "reportStatus env c nsp a job") auto
  show ?case
  proof (cases p)
    case (Some pn)
    with r show ?thesis by simp
  next
    case None
    obtain jobs es' where rr: "reportRun env c nsp job' acts = (jobs, es')"
      by (cases "reportRun env c nsp job' acts") auto
    show ?thesis
    proof (cases "lastReportTerminal env job'")
      case True
      from reportRun_terminal[OF True, of c nsp acts] rr
      have "jobs = replicate (length acts) job'" by simp
      then have "terminalReports env job' jobs = 0" by (simp add: terminalReports_replicate)
      with r None rr show ?thesis by simp
    next
      case False
      from Cons.IH[of job'] rr have "terminalReports env job' jobs \<le> 1" by simp
      with r None rr False show ?thesis by simp
    qed
  qed
qed

text \<open>
  Claim C2.  For a job whose \<open>LastReportState\<close> names one of the states success,
  failure, error and canceled, \<open>reportStatus\<close> makes no call (it posts no status) and
  leaves the job as it is, for every activity and for every run of activities.  Hence,
  in every run of \<open>reportStatus\<close> on a job, a terminal state is written into
  \<open>LastReportState\<close> at most once.
\<close>

theorem terminal_report_never_resent:
  "(lastReportTerminal env job \<longrightarrow>
      reportStatus env c nsp activity job = (job, [], None) \<and>
      reportRun env c nsp job acts = (replicate (length acts) job, [])) \<and>
   terminalReports env job (fst (reportRun env c nsp job acts)) \<le> 1"
  using reportStatus_terminal reportRun_terminal terminalReports_le_1 by blast


theorem terminal_report_witness:
  "lastReportTerminal (controllerEnv (\<lambda>nsp name. Inl NotFound)) (jobWith SuccessState ''success'' None) \<and>
   reportStatus (controllerEnv (\<lambda>nsp name. Inl NotFound)) controller ''jx''
       (activityWith FailureState []) (jobWith SuccessState ''success'' None) =
     (jobWith SuccessState ''success'' None, [], None) \<and>
   reportRun (controllerEnv (\<lambda>nsp name. Inl NotFound)) controller ''jx''
       (jobWith SuccessState ''success'' None)
       [activityWith FailureState [], activityWith RunningState [''build'']] =
     ([jobWith SuccessState ''success'' None, jobWith SuccessState ''success'' None], [])"
proof -
  let ?env = "controllerEnv (\<lambda>nsp name. Inl NotFound)"
  let ?job = "jobWith SuccessState ''success'' None"
  let ?acts = "[activityWith FailureState [], activityWith RunningState [''build'']]"
  have t: "lastReportTerminal ?env ?job"
    by (simp add: lastReportTerminal_def controllerEnv_def jobWith_def exampleToState_def)
  from terminal_report_never_resent
         [of ?env ?job controller "''jx''" "activityWith FailureState []" ?acts] t
  have A: "reportStatus ?env controller ''jx'' (activityWith FailureState []) ?job = (?job, [], None)"
    and B: "reportRun ?env controller ''jx'' ?job ?acts = (replicate (length ?acts) ?job, [])"
    by blast+
  have R: "replicate (length ?acts) ?job = [?job, ?job]" by (simp add: numeral_2_eq_2)
  from t A B[unfolded R] show ?thesis by (intro conjI)
qed

lemma postStatus_State:
  "State (Status (fst (postStatus env c activity job statusInfo gitRepoStatus e1))) = State (Status job)"
  by (simp add: postStatus_def Let_def split: option.splits)

lemma reportStatus_State:
  "State (Status (fst (reportStatus env c nsp activity job))) = State (Status job)"
  by (simp add: reportStatus_def Let_def postStatus_State)

lemma updateJobStatusForActivity_State:
  "State (Status (updateJobStatusForActivity activity job)) = act_Status activity"
  by (simp add: updateJobStatusForActivity_def Let_def)

lemma syncHandler_no_update:
  "SplitMetaNamespaceKey key = Inl e \<Longrightarrow> snd (syncHandler env c key) = []"
  "SplitMetaNamespaceKey key = Inr (nsp, name) \<Longrightarrow> lhLister env nsp name = Inl le \<Longrightarrow>
     snd (syncHandler env c key) = []"
  "SplitMetaNamespaceKey key = Inr (nsp, name) \<Longrightarrow> lhLister env nsp name = Inr None \<Longrightarrow>
     snd (syncHandler env c key) = []"
  "SplitMetaNamespaceKey key = Inr (nsp, name) \<Longrightarrow> lhLister env nsp name = Inr (Some job0) \<Longrightarrow>
     Activity (Status job0) = None \<Longrightarrow> snd (syncHandler env c key) = []"
  by (simp_all add: syncHandler_def split: lister_error.splits)

lemma syncHandler_found:
  assumes k: "SplitMetaNamespaceKey key = Inr (nsp, name)"
    and l: "lhLister env nsp name = Inr (Some job0)"
    and a: "Activity (Status job0) = Some a"
    and r: "reportStatus env c nsp a (updateJobStatusForActivity a job0) = (jc, es, pnc)"
    and u: "UpdateStatusCall n j \<in> set (snd (syncHandler env c key))"
  shows "Status j = Status jc"
proof (cases pnc)
  case (Some p)
  with u show ?thesis by (auto simp add: syncHandler_def k l a r)
next
  case None
  note pn = this
  show ?thesis
  proof (cases "lhLister env nsp (job_Name jc)")
    case (Inl le)
    with u pn show ?thesis by (cases le) (auto simp add: syncHandler_def k l a r)
  next
    case (Inr cur)
    note ir = this
    show ?thesis
    proof (cases cur)
      case None
      with u pn ir show ?thesis by (auto simp add: syncHandler_def k l a r)
    next
      case (Some currentJob)
      note sc = this
      show ?thesis
      proof (cases "Status currentJob = Status jc")
        case True
        with u pn ir sc show ?thesis by (auto simp add: syncHandler_def k l a r)
      next
        case False
        note ne = this
        show ?thesis
        proof (cases "UpdateStatus env nsp (currentJob\<lparr>Status := Status jc\<rparr>)")
          case None
          with u pn ir sc ne show ?thesis by (auto simp add: syncHandler_def k l a r Let_def)
        next
          case (Some err)
          with u pn ir sc ne show ?thesis by (auto simp add: syncHandler_def k l a r Let_def)
        qed
      qed
    qed
  qed
qed

text \<open>
  Claim C1, as the code has it.  \<open>updateJobStatusForActivity\<close> sets the state of the job
  to the status of the activity, whatever the state was: a job in a terminal state stays
  in a terminal state exactly when the activity's status is terminal.  Every status that
  \<open>syncHandler\<close> writes with \<^verbatim>\<open>UpdateStatus\<close> has the status of the activity of the job
  read from the lister as its state.
\<close>

theorem job_state_follows_activity:
  "State (Status (updateJobStatusForActivity activity job)) = act_Status activity \<and>
   (terminalState (State (Status job)) \<longrightarrow>
      terminalState (State (Status (updateJobStatusForActivity activity job)))
        = terminalState (act_Status activity)) \<and>
   (\<forall>n j. UpdateStatusCall n j \<in> set (snd (syncHandler env c key)) \<longrightarrow>
      (\<exists>nsp name job0 a.
         SplitMetaNamespaceKey key = Inr (nsp, name) \<and>
         lhLister env nsp name = Inr (Some job0) \<and>
         Activity (Status job0) = Some a \<and>
         State (Status j) = act_Status a))"
proof (intro conjI allI impI)
  show "State (Status (updateJobStatusForActivity activity job)) = act_Status activity"
    by (rule updateJobStatusForActivity_State)
  then show "terminalState (State (Status (updateJobStatusForActivity activity job)))
        = terminalState (act_Status activity)" by simp
next
  fix n j
  assume u: "UpdateStatusCall n j \<in> set (snd (syncHandler env c key))"
  then obtain nsp name where k: "SplitMetaNamespaceKey key = Inr (nsp, name)"
    using syncHandler_no_update(1)[of key _ env c]
    by (cases "SplitMetaNamespaceKey key") auto
  from u k obtain r where l0: "lhLister env nsp name = Inr r"
    using syncHandler_no_update(2)[OF k, of env _ c]
    by (cases "lhLister env nsp name") auto
  from u k l0 obtain job0 where l: "lhLister env nsp name = Inr (Some job0)"
    using syncHandler_no_update(3)[OF k, of env c]
    by (cases r) auto
  from u k l obtain a where a: "Activity (Status job0) = Some a"
    using syncHandler_no_update(4)[OF k l, of c]
    by (cases "Activity (Status job0)") auto
  obtain jc es pnc where r: "reportStatus env c nsp a (updateJobStatusForActivity a job0) = (jc, es, pnc)"
    by (cases "reportStatus env c nsp a (updateJobStatusForActivity a job0)") auto
  have sj: "State (Status jc) = act_Status a"
    using reportStatus_State[of env c nsp a "updateJobStatusForActivity a job0"] r
    by (simp add: updateJobStatusForActivity_State)
  from syncHandler_found[OF k l a r u] have "Status j = Status jc" .
  with sj k l a show "\<exists>nsp name job0 a.
         SplitMetaNamespaceKey key = Inr (nsp, name) \<and>
         lhLister env nsp name = Inr (Some job0) \<and>
         Activity (Status job0) = Some a \<and>
         State (Status j) = act_Status a" by auto
qed


lemma syncHandler_example:
  "syncHandler
     (controllerEnv (oneJobLister (jobWith SuccessState ''success'' (Some (activityWith RunningState [])))))
     controller ''jx/job-1'' =
   (Inr None,
    [UpdateStatusCall ''jx'' (jobWith RunningState ''success'' (Some (activityWith RunningState [])))])"
proof -
  let ?a = "activityWith RunningState []"
  let ?job = "jobWith SuccessState ''success'' (Some ?a)"
  let ?job' = "jobWith RunningState ''success'' (Some ?a)"
  let ?env = "controllerEnv (oneJobLister ?job)"
  have k: "SplitMetaNamespaceKey ''jx/job-1'' = Inr (''jx'', ''job-1'')"
    by (simp add: SplitMetaNamespaceKey_def)
  have l: "lhLister ?env ''jx'' ''job-1'' = Inr (Some ?job)"
    by (simp add: controllerEnv_def oneJobLister_def jobWith_def)
  have a: "Activity (Status ?job) = Some ?a" by (simp add: jobWith_def)
  have u: "updateJobStatusForActivity ?a ?job = ?job'"
    by (simp add: updateJobStatusForActivity_def Let_def jobWith_def activityWith_def
          PipelineState_defs)
  have t: "lastReportTerminal ?env ?job'"
    by (simp add: lastReportTerminal_def controllerEnv_def jobWith_def exampleToState_def)
  have r: "reportStatus ?env controller ''jx'' ?a ?job' = (?job', [], None)"
    by (rule reportStatus_terminal[OF t])
  have n: "job_Name ?job' = ''job-1''" by (simp add: jobWith_def)
  have d: "Status ?job \<noteq> Status ?job'" by (simp add: jobWith_def PipelineState_defs)
  have c: "?job\<lparr>Status := Status ?job'\<rparr> = ?job'" by (simp add: jobWith_def)
  have us: "UpdateStatus ?env ''jx'' ?job' = None" by (simp add: controllerEnv_def)
  show ?thesis
    unfolding syncHandler_def by (simp add: k l a u r n d c us Let_def)
qed

text \<open>
  Claim C1 as stated fails: for a job in state success whose activity is running,
  \<open>syncHandler\<close> writes the state running.
\<close>

theorem terminal_state_overwritten_counterexample:
  "terminalState (State (Status (jobWith SuccessState ''success'' (Some (activityWith RunningState []))))) \<and>
   \<not> terminalState (State (Status (updateJobStatusForActivity (activityWith RunningState [])
        (jobWith SuccessState ''success'' (Some (activityWith RunningState [])))))) \<and>
   syncHandler
     (controllerEnv (oneJobLister (jobWith SuccessState ''success'' (Some (activityWith RunningState [])))))
     controller ''jx/job-1'' =
   (Inr None,
    [UpdateStatusCall ''jx'' (jobWith RunningState ''success'' (Some (activityWith RunningState [])))]) \<and>
   \<not> terminalState (State (Status (jobWith RunningState ''success'' (Some (activityWith RunningState [])))))"
proof -
  have 1: "terminalState (State (Status (jobWith SuccessState ''success'' (Some (activityWith RunningState [])))))"
    by (simp add: terminalState_def jobWith_def)
  have 2: "\<not> terminalState (State (Status (updateJobStatusForActivity (activityWith RunningState [])
        (jobWith SuccessState ''success'' (Some (activityWith RunningState []))))))"
    by (simp add: updateJobStatusForActivity_State)
       (simp add: terminalState_def activityWith_def PipelineState_defs)
  have 3: "\<not> terminalState (State (Status (jobWith RunningState ''success'' (Some (activityWith RunningState [])))))"
    by (simp add: terminalState_def jobWith_def PipelineState_defs)
  from 1 2 3 syncHandler_example show ?thesis by (intro conjI)
qed

theorem job_state_follows_activity_witness:
  "terminalState (State (Status (jobWith SuccessState ''success'' (Some (activityWith FailureState []))))) \<and>
   terminalState (State (Status (updateJobStatusForActivity (activityWith FailureState [])
        (jobWith SuccessState ''success'' (Some (activityWith FailureState [])))))) \<and>
   UpdateStatusCall ''jx'' (jobWith RunningState ''success'' (Some (activityWith RunningState [])))
     \<in> set (snd (syncHandler
         (controllerEnv (oneJobLister (jobWith SuccessState ''success'' (Some (activityWith RunningState [])))))
         controller ''jx/job-1'')) \<and>
   (\<exists>nsp name job0 a.
      SplitMetaNamespaceKey ''jx/job-1'' = Inr (nsp, name) \<and>
      lhLister (controllerEnv (oneJobLister (jobWith SuccessState ''success'' (Some (activityWith RunningState [])))))
         nsp name = Inr (Some job0) \<and>
      Activity (Status job0) = Some a \<and>
      State (Status (jobWith RunningState ''success'' (Some (activityWith RunningState [])))) = act_Status a)"
proof -
  let ?env = "controllerEnv (oneJobLister (jobWith SuccessState ''success'' (Some (activityWith RunningState []))))"
  let ?j = "jobWith RunningState ''success'' (Some (activityWith RunningState []))"
  let ?job = "jobWith SuccessState ''success'' (Some (activityWith FailureState []))"
  note t = job_state_follows_activity
             [of "activityWith FailureState []" ?job ?env controller "''jx/job-1''"]
  have 1: "terminalState (State (Status ?job))"
    by (simp add: terminalState_def jobWith_def)
  have f: "terminalState (act_Status (activityWith FailureState []))"
    by (simp add: terminalState_def activityWith_def)
  from t 1 f have 2: "terminalState (State (Status (updateJobStatusForActivity
        (activityWith FailureState []) ?job)))" by blast
  have 3: "UpdateStatusCall ''jx'' ?j \<in> set (snd (syncHandler ?env controller ''jx/job-1''))"
    by (simp add: syncHandler_example)
  from t 3 have 4: "\<exists>nsp name job0 a.
      SplitMetaNamespaceKey ''jx/job-1'' = Inr (nsp, name) \<and>
      lhLister ?env nsp name = Inr (Some job0) \<and>
      Activity (Status job0) = Some a \<and>
      State (Status ?j) = act_Status a" by blast
  from 1 2 3 4 show ?thesis by (intro conjI)
qed

end
